theory Spec2Isabelle
  imports Complex_Main "HOL-Library.Sublist" "HOL-Library.Log_Nat"
begin

section \<open>The paintable image editor of the teddy bear hospital frontend\<close>

text \<open>
  This theory embeds the script of \<^verbatim>\<open>src/frontend/src/routes/dev/PaintableImage.svelte\<close>:
  the overlay canvas, the undo and redo stacks, the pointer handler and the submission
  \<^verbatim>\<open>breakBones\<close>. The component's variables are the fields of the record \<open>editor\<close>;
  every handler is a function from the state before the call to the state after it.
  What a handler reads from the browser (whether \<^verbatim>\<open>toDataURL\<close> throws, the values of
  \<^verbatim>\<open>Math.random()\<close>, the network responses, the clock) is an argument of the function.

  A JavaScript number is modelled by the rational it stands for, and every multiplication,
  division and subtraction of the script rounds its exact result to the nearest binary64
  number (\<open>fmul\<close>, \<open>fdiv\<close>, \<open>fsub\<close> below).
\<close>

subsection \<open>Numbers\<close>

text \<open>Rounding to the nearest integer, a tie to the even one.\<close>

definition ties_even :: "rat \<Rightarrow> int" where
  "ties_even x =
     (let f = \<lfloor>x\<rfloor>; d = x - of_int f
      in if d < 1 / 2 then f else if 1 / 2 < d then f + 1 else if even f then f else f + 1)"

text \<open>The binary exponent of a positive rational \<open>x\<close>: the \<open>e\<close> with
  \<open>2^e \<le> x < 2^(e + 1)\<close>, found from the bit lengths of numerator and denominator.\<close>

definition expo :: "rat \<Rightarrow> int" where
  "expo x =
     (let e = int (floorlog 2 (nat (fst (quotient_of x))))
              - int (floorlog 2 (nat (snd (quotient_of x))))
      in if 2 powi e \<le> x then e else e - 1)"

text \<open>
  The binary64 number nearest to \<open>x\<close>: \<open>x\<close> rounded to 53 significant bits, a tie to the
  even significand. The exponent range of binary64 is not modelled: the numbers of this
  component (pixel counts, layout sizes and their quotients) stay far inside it. A
  division by zero, which gives an infinity or NaN in JavaScript, gives 0 here; it arises
  only for a canvas without pixels or a display rectangle with a zero side, where nothing
  can be drawn with such a value and the crop canvas has a zero side both in the script
  and in the model, so that the submission ends at \<^verbatim>\<open>toBlob\<close> before the form is
  made.
\<close>

definition fl :: "rat \<Rightarrow> rat" where
  "fl x =
     (if x = 0 then 0
      else let u = 2 powi (expo \<bar>x\<bar> - 52)
           in sgn x * of_int (ties_even (\<bar>x\<bar> / u)) * u)"

definition fmul :: "rat \<Rightarrow> rat \<Rightarrow> rat" where
  "fmul a b = fl (a * b)"

definition fdiv :: "rat \<Rightarrow> rat \<Rightarrow> rat" where
  "fdiv a b = fl (a / b)"

definition fsub :: "rat \<Rightarrow> rat \<Rightarrow> rat" where
  "fsub a b = fl (a - b)"

text \<open>The number value of an integer (a loop counter, a canvas or image dimension).\<close>

definition number :: "nat \<Rightarrow> rat" where
  "number n = fl (of_nat n)"

subsection \<open>Bitmaps\<close>

text \<open>
  A canvas backing store, and the \<^verbatim>\<open>ImageData\<close> that \<^verbatim>\<open>getImageData\<close> copies from it:
  \<open>width * height\<close> pixels in row-major order, four bytes (red, green, blue, alpha) each.
\<close>

record bitmap =
  width :: nat
  height :: nat
  data :: "nat list"

type_synonym rgba = "nat \<times> nat \<times> nat \<times> nat"

fun channel :: "rgba \<Rightarrow> nat \<Rightarrow> nat" where
  "channel (r, g, b, a) k = (if k = 0 then r else if k = 1 then g else if k = 2 then b else a)"

definition blank :: "nat \<Rightarrow> nat \<Rightarrow> bitmap" where
  "blank w h = \<lparr>width = w, height = h, data = replicate (w * h * 4) 0\<rparr>"

text \<open>
  \<^verbatim>\<open>imgData.data[(y * canvas.width + x) * 4 + 3] > 0\<close>. A read past the end of the
  array gives \<^verbatim>\<open>undefined\<close>, and \<^verbatim>\<open>undefined > 0\<close> is false.
\<close>

definition painted :: "bitmap \<Rightarrow> nat \<Rightarrow> nat \<Rightarrow> bool" where
  "painted img x y =
     (let i = (y * width img + x) * 4 + 3 in i < length (data img) \<and> 0 < data img ! i)"

text \<open>
  Painting a set of pixels in one colour. \<open>covered x y\<close> says that the pixel at column
  \<open>x\<close> and row \<open>y\<close> lies wholly inside the painted shape. With the opaque colours the
  component uses, \<^verbatim>\<open>source-over\<close> replaces such a pixel by the colour and
  \<^verbatim>\<open>destination-out\<close> makes it transparent. A pixel that the edge of the shape cuts is
  blended by the browser's anti-aliasing; the model leaves it as it was, so the model
  paints no pixel that the browser does not paint.
\<close>

definition fill :: "(nat \<Rightarrow> nat \<Rightarrow> bool) \<Rightarrow> rgba \<Rightarrow> bitmap \<Rightarrow> bitmap" where
  "fill covered colour b =
     b\<lparr>data := map (\<lambda>i. if covered ((i div 4) mod width b) ((i div 4) div width b)
                          then channel colour (i mod 4) else data b ! i)
                  [0..<length (data b)]\<rparr>"

subsection \<open>The current path of the drawing context and its strokes\<close>

text \<open>
  The context's transform is the scaling by \<open>dpr\<close> that \<^verbatim>\<open>setCanvasSize\<close> installs, so
  path coordinates are display (CSS) pixels. \<^verbatim>\<open>beginPath\<close> empties the path;
  \<^verbatim>\<open>moveTo\<close> with \<^verbatim>\<open>lineTo\<close> adds a segment, \<^verbatim>\<open>rect\<close> a closed rectangle.
\<close>

type_synonym point = "rat \<times> rat"

datatype subpath = Line point point | Rect rat rat rat rat

datatype cap = Butt | Round

definition sq :: "rat \<Rightarrow> rat" where
  "sq v = v * v"

text \<open>Is the device point \<open>p\<close> inside the stroke of the segment from \<open>a\<close> to \<open>b\<close>
  (device coordinates) of half width \<open>r\<close>? With round caps the stroke is the set of
  points within \<open>r\<close> of the segment, and a segment of length zero is painted as a disc,
  as browsers do; with butt caps the stroke ends at the end points, and a segment of
  length zero paints nothing.\<close>

definition in_segment_stroke :: "cap \<Rightarrow> point \<Rightarrow> point \<Rightarrow> rat \<Rightarrow> point \<Rightarrow> bool" where
  "in_segment_stroke c a b r p =
     (let dx = fst b - fst a; dy = snd b - snd a; l2 = sq dx + sq dy;
          px = fst p - fst a; py = snd p - snd a
      in if l2 = 0 then c = Round \<and> sq px + sq py \<le> sq r
         else let t = (px * dx + py * dy) / l2;
                  u = (if c = Round then max 0 (min 1 t) else t)
              in 0 \<le> u \<and> u \<le> 1 \<and> sq (px - u * dx) + sq (py - u * dy) \<le> sq r)"

text \<open>The stroke of a segment is convex, so a pixel square lies inside it when its four
  corners do.\<close>

definition covered_segment :: "cap \<Rightarrow> rat \<Rightarrow> rat \<Rightarrow> point \<Rightarrow> point \<Rightarrow> nat \<Rightarrow> nat \<Rightarrow> bool" where
  "covered_segment c scale lineWidth a b x y =
     (let a' = (fst a * scale, snd a * scale); b' = (fst b * scale, snd b * scale);
          r = lineWidth * scale / 2
      in in_segment_stroke c a' b' r (of_nat x, of_nat y)
       \<and> in_segment_stroke c a' b' r (of_nat x + 1, of_nat y)
       \<and> in_segment_stroke c a' b' r (of_nat x, of_nat y + 1)
       \<and> in_segment_stroke c a' b' r (of_nat x + 1, of_nat y + 1))"

text \<open>
  The stroke of the closed rectangle \<^verbatim>\<open>rect(x0, y0, w, h)\<close> with mitred corners is the
  band between the rectangle grown by half the line width and the rectangle shrunk by it.
  A rectangle with a zero side is left unpainted by the model.
\<close>

definition covered_rect :: "rat \<Rightarrow> rat \<Rightarrow> rat \<Rightarrow> rat \<Rightarrow> rat \<Rightarrow> rat \<Rightarrow> nat \<Rightarrow> nat \<Rightarrow> bool" where
  "covered_rect scale lineWidth x0 y0 w h x y =
     (let r = lineWidth * scale / 2;
          l = min x0 (x0 + w) * scale; rt = max x0 (x0 + w) * scale;
          t = min y0 (y0 + h) * scale; bt = max y0 (y0 + h) * scale
      in w \<noteq> 0 \<and> h \<noteq> 0
       \<and> l - r \<le> of_nat x \<and> of_nat x + 1 \<le> rt + r
       \<and> t - r \<le> of_nat y \<and> of_nat y + 1 \<le> bt + r
       \<and> (of_nat x + 1 \<le> l + r \<or> rt - r \<le> of_nat x
          \<or> of_nat y + 1 \<le> t + r \<or> bt - r \<le> of_nat y))"

fun covered_subpath :: "cap \<Rightarrow> rat \<Rightarrow> rat \<Rightarrow> subpath \<Rightarrow> nat \<Rightarrow> nat \<Rightarrow> bool" where
  "covered_subpath c scale lineWidth (Line a b) x y = covered_segment c scale lineWidth a b x y"
| "covered_subpath c scale lineWidth (Rect x0 y0 w h) x y = covered_rect scale lineWidth x0 y0 w h x y"

text \<open>\<^verbatim>\<open>ctx.stroke()\<close>: every subpath of the current path is stroked.\<close>

definition stroke :: "cap \<Rightarrow> rat \<Rightarrow> rat \<Rightarrow> rgba \<Rightarrow> subpath list \<Rightarrow> bitmap \<Rightarrow> bitmap" where
  "stroke c scale lineWidth colour p b =
     fill (\<lambda>x y. list_ex (\<lambda>sp. covered_subpath c scale lineWidth sp x y) p) colour b"

subsection \<open>The component's state\<close>

text \<open>
  \<^verbatim>\<open>canvas.toDataURL('image/png')\<close> gives an encoded copy of the bitmap; PNG is
  lossless, so a data URL is modelled by the bitmap it encodes.
\<close>

datatype dataurl = DataURL bitmap

datatype tool = Brush | Eraser

record domrect =
  rleft :: rat
  rtop :: rat
  rwidth :: rat
  rheight :: rat

text \<open>
  \<open>rect\<close> is what \<^verbatim>\<open>canvas.getBoundingClientRect()\<close> returns, \<open>natural\<close> the
  \<^verbatim>\<open>naturalWidth\<close> and \<^verbatim>\<open>naturalHeight\<close> of \<^verbatim>\<open>imgEl\<close>, \<open>path\<close> the current path of
  \<^verbatim>\<open>ctx\<close>, and \<open>pending\<close> the images that \<^verbatim>\<open>restoreFrom\<close> has started to load and whose
  \<^verbatim>\<open>onload\<close> has not run yet, in the order in which they were started.
\<close>

record editor =
  imageSrc :: string
  src :: string
  canvas :: bitmap
  path :: "subpath list"
  dpr :: rat
  rect :: domrect
  natural :: "nat \<times> nat"
  tool :: tool
  brushColor :: "nat \<times> nat \<times> nat"
  brushSize :: rat
  drawing :: bool
  lastX :: rat
  lastY :: rat
  undoStack :: "dataurl list"
  redoStack :: "dataurl list"
  overlayDataUrl :: "dataurl option"
  pending :: "dataurl list"

subsection \<open>The history stacks\<close>

text \<open>
  \<^verbatim>\<open>pushUndo\<close>. The argument \<open>snap\<close> is false when \<^verbatim>\<open>canvas.toDataURL\<close> throws (or
  when there is no canvas, where the function returns at once): the \<^verbatim>\<open>catch\<close> swallows
  the exception, and the two statements after the push, the eviction and the emptying of
  the redo stack, are skipped with it.
\<close>

definition pushUndo :: "bool \<Rightarrow> editor \<Rightarrow> editor" where
  "pushUndo snap s =
     (if snap then
        let pushed = undoStack s @ [DataURL (canvas s)];
            kept = (if 25 < length pushed then tl pushed else pushed)
        in s\<lparr>undoStack := kept, redoStack := []\<rparr>
      else s)"

text \<open>\<^verbatim>\<open>restoreFrom\<close> only starts the load of the image; the drawing is done by its
  \<^verbatim>\<open>onload\<close> callback, below.\<close>

definition restoreFrom :: "dataurl \<Rightarrow> editor \<Rightarrow> editor" where
  "restoreFrom url s = s\<lparr>pending := pending s @ [url]\<rparr>"

text \<open>
  The display rectangle of the canvas, scaled by \<open>dpr\<close>, is exactly its backing store.
  (\<^verbatim>\<open>setCanvasSize\<close> rounds both, so this fails for fractional layout sizes.)
\<close>

definition aligned :: "editor \<Rightarrow> bool" where
  "aligned s = (rwidth (rect s) * dpr s = of_nat (width (canvas s))
              \<and> rheight (rect s) * dpr s = of_nat (height (canvas s)))"

text \<open>
  The \<^verbatim>\<open>onload\<close> callback of the pending image at position \<open>i\<close>; the script does not
  order the callbacks of several images, so any pending image may load next. The canvas
  is cleared and the image is drawn over the whole display rectangle. An image of the
  size of the backing store, drawn on an aligned canvas, is copied pixel by pixel;
  otherwise the browser resamples it, and \<open>resampled\<close> is the data it produces. \<open>snap\<close>
  is false when the \<^verbatim>\<open>toDataURL\<close> of the callback throws.
\<close>

definition restore_onload :: "bool \<Rightarrow> nat list \<Rightarrow> nat \<Rightarrow> editor \<Rightarrow> editor" where
  "restore_onload snap resampled i s =
     (if i < length (pending s) then
        (case pending s ! i of
           DataURL img \<Rightarrow>
             let c = (if width img = width (canvas s) \<and> height img = height (canvas s)
                         \<and> aligned s
                      then (canvas s)\<lparr>data := data img\<rparr>
                      else (canvas s)\<lparr>data := resampled\<rparr>)
             in s\<lparr>pending := take i (pending s) @ drop (Suc i) (pending s), canvas := c,
                  overlayDataUrl := (if snap then Some (DataURL c) else overlayDataUrl s)\<rparr>)
      else s)"

text \<open>Several callbacks, run one after the other; each element of the list is the position
  of the image that loads, the snapshot flag and the resampled data of one callback.\<close>

fun loads :: "(nat \<times> bool \<times> nat list) list \<Rightarrow> editor \<Rightarrow> editor" where
  "loads [] s = s"
| "loads (e # es) s = loads es (restore_onload (fst (snd e)) (snd (snd e)) (fst e) s)"

text \<open>None of the callbacks is the one of the youngest pending image, the last of the
  list.\<close>

fun older_only :: "(nat \<times> bool \<times> nat list) list \<Rightarrow> editor \<Rightarrow> bool" where
  "older_only [] s = True"
| "older_only (e # es) s =
     (Suc (fst e) < length (pending s)
      \<and> older_only es (restore_onload (fst (snd e)) (snd (snd e)) (fst e) s))"

text \<open>The callback of the youngest pending image.\<close>

definition youngest_load :: "bool \<Rightarrow> nat list \<Rightarrow> editor \<Rightarrow> editor" where
  "youngest_load snap resampled s = restore_onload snap resampled (length (pending s) - 1) s"

definition undo :: "bool \<Rightarrow> editor \<Rightarrow> editor" where
  "undo snap s =
     (if undoStack s = [] then s
      else if snap then
        restoreFrom (last (undoStack s))
          (s\<lparr>redoStack := redoStack s @ [DataURL (canvas s)], undoStack := butlast (undoStack s)\<rparr>)
      else s)"

definition redo :: "bool \<Rightarrow> editor \<Rightarrow> editor" where
  "redo snap s =
     (if redoStack s = [] then s
      else if snap then
        restoreFrom (last (redoStack s))
          (s\<lparr>undoStack := undoStack s @ [DataURL (canvas s)], redoStack := butlast (redoStack s)\<rparr>)
      else s)"

text \<open>\<^verbatim>\<open>clearCanvas\<close>. \<open>snap2\<close> is false when the second \<^verbatim>\<open>toDataURL\<close>, which no
  \<^verbatim>\<open>try\<close> guards, throws: the assignment is then not made.\<close>

definition clearCanvas :: "bool \<Rightarrow> bool \<Rightarrow> editor \<Rightarrow> editor" where
  "clearCanvas snap snap2 s =
     (let s1 = pushUndo snap s;
          c = blank (width (canvas s1)) (height (canvas s1))
      in s1\<lparr>canvas := c,
            overlayDataUrl := (if snap2 then Some (DataURL c) else overlayDataUrl s1)\<rparr>)"

subsection \<open>Strokes and the pointer handler\<close>

text \<open>
  What a fully covered pixel becomes: with the brush (\<^verbatim>\<open>source-over\<close>) the opaque brush
  colour, with the eraser (\<^verbatim>\<open>destination-out\<close>) a transparent pixel.
\<close>

definition ink :: "tool \<Rightarrow> nat \<times> nat \<times> nat \<Rightarrow> rgba" where
  "ink t colour =
     (case t of Eraser \<Rightarrow> (0, 0, 0, 0) | Brush \<Rightarrow> (fst colour, fst (snd colour), snd (snd colour), 255))"

text \<open>\<^verbatim>\<open>drawLine\<close>: a new path of one segment, stroked with round caps in the width
  \<^verbatim>\<open>Math.max(0.5, brushSize * pressure)\<close>.\<close>

definition drawLine :: "rat \<Rightarrow> rat \<Rightarrow> rat \<Rightarrow> rat \<Rightarrow> rat \<Rightarrow> editor \<Rightarrow> editor" where
  "drawLine x1 y1 x2 y2 pr s =
     (let lineWidth = max (1 / 2) (fmul (brushSize s) pr);
          p = [Line (x1, y1) (x2, y2)]
      in s\<lparr>path := p,
           canvas := stroke Round (dpr s) lineWidth (ink (tool s) (brushColor s)) p (canvas s)\<rparr>)"

definition drawPoint :: "rat \<Rightarrow> rat \<Rightarrow> rat \<Rightarrow> editor \<Rightarrow> editor" where
  "drawPoint x y pr s = drawLine x y x y pr s"

record pointer_event =
  button :: int
  clientX :: rat
  clientY :: rat
  pressure :: rat

definition pointerPos :: "pointer_event \<Rightarrow> editor \<Rightarrow> point" where
  "pointerPos e s = (fsub (clientX e) (rleft (rect s)), fsub (clientY e) (rtop (rect s)))"

text \<open>\<^verbatim>\<open>onPointerDown\<close>. The capture of the pointer changes none of the component's
  variables and is left out.\<close>

definition onPointerDown :: "bool \<Rightarrow> pointer_event \<Rightarrow> editor \<Rightarrow> editor" where
  "onPointerDown snap e s =
     (if button e = 1 \<or> button e = 2 then s
      else
        let s1 = pushUndo snap s;
            s2 = s1\<lparr>drawing := True\<rparr>;
            p = pointerPos e s2;
            s3 = s2\<lparr>lastX := fst p, lastY := snd p\<rparr>;
            pr = (if pressure e \<noteq> 0 \<and> 0 < pressure e then pressure e else 1)
        in drawPoint (fst p) (snd p) pr s3)"

subsection \<open>The region scan of the submission\<close>

record scan =
  minX :: nat
  minY :: nat
  maxX :: nat
  maxY :: nat
  count :: nat
  seeds :: "point list"

text \<open>
  The body of the inner loop of \<^verbatim>\<open>breakBones\<close> at column \<open>x\<close> of row \<open>y\<close>. \<open>rnd k\<close> is
  the value of the call of \<^verbatim>\<open>Math.random()\<close> that \<open>k\<close> calls precede; the loop calls it
  once for each painted pixel, so \<open>count\<close> calls precede the one made here.
\<close>

definition visit :: "(nat \<Rightarrow> rat) \<Rightarrow> domrect \<Rightarrow> bitmap \<Rightarrow> nat \<Rightarrow> nat \<Rightarrow> scan \<Rightarrow> scan" where
  "visit rnd r img y x a =
     (if painted img x y then
        a\<lparr>seeds := (if fl (95 / 100) < rnd (count a)
                     then seeds a @ [(fmul (number x) (fdiv (rwidth r) (number (width img))),
                                      fmul (number y) (fdiv (rheight r) (number (height img))))]
                     else seeds a),
          minX := (if x < minX a then x else minX a),
          minY := (if y < minY a then y else minY a),
          maxX := (if maxX a < x then x else maxX a),
          maxY := (if maxY a < y then y else maxY a),
          count := count a + 1\<rparr>
      else a)"

text \<open>The two nested \<^verbatim>\<open>for\<close> loops, rows outside and columns inside, from the initial
  bounds \<^verbatim>\<open>minX = canvas.width, minY = canvas.height, maxX = 0, maxY = 0\<close>.\<close>

definition scan_overlay :: "(nat \<Rightarrow> rat) \<Rightarrow> domrect \<Rightarrow> bitmap \<Rightarrow> scan" where
  "scan_overlay rnd r img =
     fold (\<lambda>y. fold (visit rnd r img y) [0..<width img]) [0..<height img]
       \<lparr>minX = width img, minY = height img, maxX = 0, maxY = 0, count = 0, seeds = []\<rparr>"

text \<open>The bounds in display space, as the assignments after the loop compute them:
  \<^verbatim>\<open>minX = (minX * rect.width) / canvas.width\<close> and so on.\<close>

definition display_box :: "domrect \<Rightarrow> bitmap \<Rightarrow> scan \<Rightarrow> rat \<times> rat \<times> rat \<times> rat" where
  "display_box r img a =
     (fdiv (fmul (number (minX a)) (rwidth r)) (number (width img)),
      fdiv (fmul (number (minY a)) (rheight r)) (number (height img)),
      fdiv (fmul (number (maxX a)) (rwidth r)) (number (width img)),
      fdiv (fmul (number (maxY a)) (rheight r)) (number (height img)))"

subsection \<open>Strings and numbers of the submission\<close>

text \<open>\<^verbatim>\<open>s.includes(t)\<close>: \<open>t\<close> starts at some position of \<open>s\<close>.\<close>

fun js_includes :: "string \<Rightarrow> string \<Rightarrow> bool" where
  "js_includes [] t = (t = [])"
| "js_includes (c # s) t = (prefix t (c # s) \<or> js_includes s t)"

text \<open>\<^verbatim>\<open>s.split(c)\<close> for a separator of one character; the result is never empty.\<close>

fun split_on :: "char \<Rightarrow> string \<Rightarrow> string list" where
  "split_on c [] = [[]]"
| "split_on c (x # xs) =
     (if x = c then [] # split_on c xs
      else (case split_on c xs of [] \<Rightarrow> [[x]] | w # ws \<Rightarrow> (x # w) # ws))"

text \<open>The decimal numeral of an integer, as \<^verbatim>\<open>toString\<close> and string concatenation
  print it.\<close>

function dec :: "nat \<Rightarrow> string" where
  "dec n = (if n < 10 then [''0123456789'' ! n] else dec (n div 10) @ [''0123456789'' ! (n mod 10)])"
  by pat_completeness auto
termination
  by (relation "measure id") auto

declare dec.simps [simp del]

definition num :: "int \<Rightarrow> string" where
  "num i = (if i < 0 then CHR ''-'' # dec (nat (- i)) else dec (nat i))"

text \<open>\<^verbatim>\<open>Math.round\<close> rounds to the nearest integer, a half upwards.\<close>

definition js_round :: "rat \<Rightarrow> int" where
  "js_round z = \<lfloor>z + 1 / 2\<rfloor>"

text \<open>
  Assigning the number \<open>v\<close> to the \<^verbatim>\<open>width\<close> or \<^verbatim>\<open>height\<close> of a canvas element. The
  attribute is an \<^verbatim>\<open>unsigned long\<close>: the number is truncated towards zero and reduced
  modulo \<open>2^32\<close>; a result above \<open>2^31 - 1\<close> is replaced by the attribute's default \<open>d\<close>
  (300 for the width, 150 for the height).
\<close>

definition canvas_dim :: "rat \<Rightarrow> nat \<Rightarrow> nat" where
  "canvas_dim v d =
     (let n = (if v < 0 then - \<lfloor>- v\<rfloor> else \<lfloor>v\<rfloor>) mod 4294967296
      in if n \<le> 2147483647 then nat n else d)"

subsection \<open>The crop canvas\<close>

definition byte :: "bitmap \<Rightarrow> nat \<Rightarrow> nat" where
  "byte b i = (if i < length (data b) then data b ! i else 0)"

definition pixel :: "bitmap \<Rightarrow> nat \<Rightarrow> nat \<Rightarrow> nat list" where
  "pixel b x y =
     (if x < width b \<and> y < height b then map (\<lambda>k. byte b ((y * width b + x) * 4 + k)) [0..<4]
      else [0, 0, 0, 0])"

text \<open>
  The pixel at column \<open>i\<close>, row \<open>j\<close> of the crop canvas after
  \<^verbatim>\<open>drawImage(canvas, sx, sy, sw, sh, 0, 0, sw, sh)\<close>: source and destination have one
  size, so the source rectangle is copied without scaling to the origin of the crop
  canvas, and what falls outside the crop canvas is clipped. With a zero \<open>sw\<close> or \<open>sh\<close>
  nothing is drawn, with a negative one the destination lies outside the crop canvas.
  The four numbers are the device bounds of the scan up to the rounding of the conversion
  to display space and back, so they lie within a rounding error of whole pixels: a pixel
  of the crop canvas whose centre the destination covers is copied from the nearest
  source pixel.
\<close>

definition drawn_pixel :: "bitmap \<Rightarrow> rat \<Rightarrow> rat \<Rightarrow> rat \<Rightarrow> rat \<Rightarrow> nat \<Rightarrow> nat \<Rightarrow> nat list" where
  "drawn_pixel c sx sy sw sh i j =
     (if 0 < sw \<and> 0 < sh \<and> of_nat i + 1 / 2 < sw \<and> of_nat j + 1 / 2 < sh
      then pixel c (nat \<lfloor>sx + 1 / 2\<rfloor> + i) (nat \<lfloor>sy + 1 / 2\<rfloor> + j) else [0, 0, 0, 0])"

text \<open>\<^verbatim>\<open>croppedCanvas\<close> after the call of \<^verbatim>\<open>drawImage\<close>. The box is the display-space
  box: its differences are assigned to the dimensions as they are.\<close>

definition cropped :: "domrect \<Rightarrow> bitmap \<Rightarrow> rat \<times> rat \<times> rat \<times> rat \<Rightarrow> bitmap" where
  "cropped r c box =
     (case box of (minX', minY', maxX', maxY') \<Rightarrow>
        let w = canvas_dim (fsub maxX' minX') 300;
            h = canvas_dim (fsub maxY' minY') 150;
            sx = fmul minX' (fdiv (number (width c)) (rwidth r));
            sy = fmul minY' (fdiv (number (height c)) (rheight r));
            sw = fmul (fsub maxX' minX') (fdiv (number (width c)) (rwidth r));
            sh = fmul (fsub maxY' minY') (fdiv (number (height c)) (rheight r))
        in \<lparr>width = w, height = h,
            data = concat (map (\<lambda>k. drawn_pixel c sx sy sw sh (k mod w) (k div w)) [0..<w * h])\<rparr>)"

subsection \<open>The submission\<close>

datatype blob = Bytes string | PngBlob bitmap

datatype formvalue = Str string | File blob string

type_synonym formdata = "(string \<times> formvalue) list"

text \<open>\<^verbatim>\<open>FormData.delete\<close> removes every entry of the name.\<close>

definition fd_delete :: "string \<Rightarrow> formdata \<Rightarrow> formdata" where
  "fd_delete name fd = filter (\<lambda>entry. fst entry \<noteq> name) fd"

text \<open>A request: the fetch of a URL, or a POST of a form to a URL with an
  \<^verbatim>\<open>Authorization\<close> header.\<close>

datatype request = Get string | Post string formdata string

fun target :: "request \<Rightarrow> string" where
  "target (Get url) = url"
| "target (Post url fd auth) = url"

fun payload :: "request \<Rightarrow> formdata" where
  "payload (Get url) = []"
| "payload (Post url fd auth) = fd"

text \<open>The promise that rejected, where \<^verbatim>\<open>breakBones\<close> ends by an exception.\<close>

datatype rejection = ImageFetch | ToBlob | PostFetch

text \<open>
  What one call of \<^verbatim>\<open>breakBones\<close> reads from outside the component: the constant
  \<^verbatim>\<open>PUBLIC_BACKEND_URL\<close>; the blob of \<^verbatim>\<open>fetch(imageSrc)\<close> (\<open>None\<close>: the promise
  rejects); the values of \<^verbatim>\<open>Math.random()\<close>; whether the encoder of \<^verbatim>\<open>toBlob\<close>
  produces a blob; the \<^verbatim>\<open>session\<close> item of the local storage; the response to the POST
  as its \<^verbatim>\<open>ok\<close> flag and body (\<open>None\<close>: the promise rejects); the object URL made for
  the body; and the clock.
\<close>

record env =
  backend :: string
  fetched :: "blob option"
  rand :: "nat \<Rightarrow> rat"
  encodes :: bool
  session :: "string option"
  response :: "(bool \<times> blob) option"
  objectURL :: string
  now :: nat

record outcome =
  final :: editor
  sent :: "request list"
  rejected :: "rejection option"

text \<open>
  Modelled from the spec: \<^verbatim>\<open>triggerExplode\<close> of \<^verbatim>\<open>./Explosion\<close>, a file that is not
  among the sources. The spec treats it as a fire-and-forget visual notifier invoked with
  the list of seed points; it is modelled as changing none of the component's variables.
\<close>

definition triggerExplode :: "point list \<Rightarrow> editor \<Rightarrow> editor" where
  "triggerExplode pts s = s"

text \<open>
  The outline of the box, drawn into the overlay canvas: \<^verbatim>\<open>ctx.rect\<close> adds the
  rectangle to the current path (no \<^verbatim>\<open>beginPath\<close> precedes it), and \<^verbatim>\<open>ctx.stroke()\<close>
  strokes the path in \<^verbatim>\<open>#0ff\<close> with line width 2 and the default butt caps.
\<close>

definition outline :: "rat \<times> rat \<times> rat \<times> rat \<Rightarrow> editor \<Rightarrow> editor" where
  "outline box s =
     (case box of (minX', minY', maxX', maxY') \<Rightarrow>
        let p = path s @ [Rect minX' minY' (fsub maxX' minX') (fsub maxY' minY')]
        in s\<lparr>path := p, canvas := stroke Butt (dpr s) 2 (0, 255, 255, 255) p (canvas s)\<rparr>)"

text \<open>The state when the crop canvas is created: after the scan, the explosion and the
  outline.\<close>

definition marked :: "env \<Rightarrow> editor \<Rightarrow> editor" where
  "marked env s =
     (let a = scan_overlay (rand env) (rect s) (canvas s)
      in outline (display_box (rect s) (canvas s) a) (triggerExplode (seeds a) s))"

definition croppedCanvas :: "env \<Rightarrow> editor \<Rightarrow> bitmap" where
  "croppedCanvas env s =
     cropped (rect s) (canvas (marked env s))
       (display_box (rect s) (canvas s) (scan_overlay (rand env) (rect s) (canvas s)))"

text \<open>The form when the mode is chosen: the three fields appended first, the overlay
  file, and the corner of the box in source space.\<close>

definition formData :: "env \<Rightarrow> editor \<Rightarrow> blob \<Rightarrow> formdata" where
  "formData env s img =
     (case display_box (rect s) (canvas s) (scan_overlay (rand env) (rect s) (canvas s)) of
        (minX', minY', maxX', maxY') \<Rightarrow>
          [(''image_file'', File img ''image.png''),
           (''scale'', Str ''1.0''),
           (''noise'', Str ''10''),
           (''overlay_file'', File (PngBlob (croppedCanvas env s)) ''overlay.png''),
           (''x'', Str (num (js_round
              (fmul minX' (fdiv (number (fst (natural s))) (rwidth (rect s))))))),
           (''y'', Str (num (js_round
              (fmul minY' (fdiv (number (snd (natural s))) (rheight (rect s)))))))])"

text \<open>\<^verbatim>\<open>splitUrl.pop()\<close> twice: the last segment, then the one before it. An empty
  array pops \<^verbatim>\<open>undefined\<close>, which the form stores as the string \<^verbatim>\<open>undefined\<close>.\<close>

definition formDataQueue :: "env \<Rightarrow> editor \<Rightarrow> blob \<Rightarrow> formdata" where
  "formDataQueue env s img =
     (let splitUrl = split_on CHR ''/'' (imageSrc s);
          choice = last splitUrl;
          splitUrl2 = butlast splitUrl;
          job_id = (if splitUrl2 = [] then ''undefined'' else last splitUrl2)
      in fd_delete ''image_file''
           (formData env s img @ [(''choice'', Str choice), (''job_id'', Str job_id)]))"

definition authorization :: "env \<Rightarrow> string" where
  "authorization env = ''Bearer '' @ (case session env of None \<Rightarrow> ''null'' | Some t \<Rightarrow> t)"

text \<open>
  \<^verbatim>\<open>breakBones\<close>. The first request is the fetch of the image; a rejected promise ends
  the call where it is awaited, with what was done before it. \<^verbatim>\<open>toBlob\<close> calls back
  with \<^verbatim>\<open>null\<close>, and the wrapper rejects, when the crop canvas has a zero dimension or
  the encoder fails.
\<close>

definition breakBones :: "env \<Rightarrow> editor \<Rightarrow> outcome" where
  "breakBones env s =
     (case fetched env of
        None \<Rightarrow> \<lparr>final = s, sent = [Get (imageSrc s)], rejected = Some ImageFetch\<rparr>
      | Some img \<Rightarrow>
          let s1 = marked env s in
          if width (croppedCanvas env s) = 0 \<or> height (croppedCanvas env s) = 0 \<or> \<not> encodes env
          then \<lparr>final = s1, sent = [Get (imageSrc s)], rejected = Some ToBlob\<rparr>
          else if js_includes (imageSrc s) (backend env) then
            let reqs = [Get (imageSrc s),
                        Post (backend env @ ''/apply_fracture_queue'') (formDataQueue env s img)
                          (authorization env)]
            in (case response env of
                  None \<Rightarrow> \<lparr>final = s1, sent = reqs, rejected = Some PostFetch\<rparr>
                | Some (ok, body) \<Rightarrow>
                    \<lparr>final = (if ok then s1\<lparr>src := src s1 @ ''?t='' @ dec (now env)\<rparr> else s1),
                     sent = reqs, rejected = None\<rparr>)
          else
            let reqs = [Get (imageSrc s),
                        Post (backend env @ ''/apply_fracture'') (formData env s img)
                          (authorization env)]
            in (case response env of
                  None \<Rightarrow> \<lparr>final = s1, sent = reqs, rejected = Some PostFetch\<rparr>
                | Some (ok, body) \<Rightarrow>
                    \<lparr>final = (if ok
                              then s1\<lparr>imageSrc := objectURL env, undoStack := [], redoStack := [],
                                      overlayDataUrl := None,
                                      canvas := blank (width (canvas s1)) (height (canvas s1))\<rparr>
                              else s1),
                     sent = reqs, rejected = None\<rparr>))"

subsection \<open>Notions used to state the properties\<close>


text \<open>The pixels in the order of the scan.\<close>

definition pixels :: "nat list \<Rightarrow> nat list \<Rightarrow> (nat \<times> nat) list" where
  "pixels xs ys = concat (map (\<lambda>y. map (\<lambda>x. (x, y)) xs) ys)"


subsection \<open>Concrete states\<close>

text \<open>A canvas of two by two pixels whose only painted pixel is the one at (1, 1).\<close>

definition one_dot :: bitmap where
  "one_dot = \<lparr>width = 2, height = 2, data = [0,0,0,0, 0,0,0,0, 0,0,0,0, 255,71,87,255]\<rparr>"

text \<open>A display rectangle of \<open>w\<close> by \<open>h\<close> CSS pixels at the origin of the viewport.\<close>

definition at_origin :: "rat \<Rightarrow> rat \<Rightarrow> domrect" where
  "at_origin w h = \<lparr>rleft = 0, rtop = 0, rwidth = w, rheight = h\<rparr>"

text \<open>
  An editor showing a freshly captured image of four by four pixels at two by two CSS
  pixels with a device pixel ratio of 1; the overlay is \<open>one_dot\<close> and both stacks are
  empty.
\<close>

definition studio :: editor where
  "studio =
     \<lparr>imageSrc = ''/capture.png'', src = ''/capture.png'', canvas = one_dot, path = [],
      dpr = 1, rect = at_origin 2 2, natural = (4, 4), tool = Brush,
      brushColor = (255, 71, 87), brushSize = 14, drawing = False, lastX = 0, lastY = 0,
      undoStack = [], redoStack = [], overlayDataUrl = None, pending = []\<rparr>"

text \<open>A pointer-down event with the button code \<open>b\<close>, in the middle of the top left
  CSS pixel, with half pressure.\<close>

definition press :: "int \<Rightarrow> pointer_event" where
  "press b = \<lparr>button = b, clientX = 1 / 2, clientY = 1 / 2, pressure = 1 / 2\<rparr>"

text \<open>The editor after one recorded change has been undone: one entry on the redo stack.\<close>

definition undone :: editor where
  "undone = undo True (pushUndo True studio)"

text \<open>An editor whose undo stack is full.\<close>

definition full :: editor where
  "full = studio\<lparr>undoStack := DataURL (blank 2 2) # replicate 24 (DataURL one_dot)\<rparr>"

text \<open>A canvas of two by two pixels with the pixels at (0, 0) and (1, 1) painted.\<close>

definition two_dots :: bitmap where
  "two_dots = \<lparr>width = 2, height = 2, data = [255,71,87,255, 0,0,0,0, 0,0,0,0, 255,71,87,255]\<rparr>"

text \<open>A canvas of four by four pixels with the pixels at (0, 0) and (3, 3) painted.\<close>

definition corners :: bitmap where
  "corners =
     \<lparr>width = 4, height = 4,
      data = [255,71,87,255, 0,0,0,0, 0,0,0,0, 0,0,0,0,
              0,0,0,0, 0,0,0,0, 0,0,0,0, 0,0,0,0,
              0,0,0,0, 0,0,0,0, 0,0,0,0, 0,0,0,0,
              0,0,0,0, 0,0,0,0, 0,0,0,0, 255,71,87,255]\<rparr>"

text \<open>A canvas of three by three pixels with the pixels at (1, 1) and (2, 2) painted.\<close>

definition diagonal :: bitmap where
  "diagonal =
     \<lparr>width = 3, height = 3,
      data = [0,0,0,0, 0,0,0,0, 0,0,0,0,
              0,0,0,0, 255,71,87,255, 0,0,0,0,
              0,0,0,0, 0,0,0,0, 255,71,87,255]\<rparr>"

text \<open>The editor of a fresh capture with two painted pixels; the same with nothing
  painted; an editor showing a result of the backend, job 7, choice 1, an image of six
  by six pixels at three by three CSS pixels; and the editor of the capture on a display
  with a device pixel ratio of 2.\<close>

definition atelier :: editor where
  "atelier = studio\<lparr>canvas := two_dots\<rparr>"

definition vacant :: editor where
  "vacant = studio\<lparr>canvas := blank 2 2\<rparr>"

definition ward :: editor where
  "ward =
     studio\<lparr>imageSrc := ''http://api/results/7/1'', src := ''http://api/results/7/1'',
            canvas := diagonal, rect := at_origin 3 3, natural := (6, 6)\<rparr>"

definition retina :: editor where
  "retina = studio\<lparr>canvas := corners, dpr := 2\<rparr>"

text \<open>The editor showing an image whose location names the backend in its query only.\<close>

definition mirror :: editor where
  "mirror = atelier\<lparr>imageSrc := ''/view?from=http://api/7/1''\<rparr>"

text \<open>The editor after a stroke on an empty overlay: the snapshot taken at the start of
  the stroke, the empty overlay, is the one entry of the undo stack.\<close>

definition stroked :: editor where
  "stroked = studio\<lparr>undoStack := [DataURL (blank 2 2)]\<rparr>"

text \<open>
  The same editor on a display with a device pixel ratio of 3/2 and an image shown at one
  CSS pixel: \<^verbatim>\<open>setCanvasSize\<close> rounds the backing store to two device pixels, while the
  display rectangle covers one and a half. A snapshot redrawn there covers the last
  column and row half only; \<open>faded\<close> is such a redrawing of \<open>one_dot\<close>, its painted pixel
  covered to a quarter.
\<close>

definition hidpi :: editor where
  "hidpi = stroked\<lparr>dpr := 3 / 2, rect := at_origin 1 1\<rparr>"

definition faded :: "nat list" where
  "faded = [0,0,0,0, 0,0,0,0, 0,0,0,0, 255,71,87,64]"


text \<open>A canvas of eight by three pixels with the pixels at (5, 0) and (7, 2) painted, and
  the editor of a capture 92 pixels wide shown at five by two CSS pixels with a device
  pixel ratio of 13/8.\<close>

definition strip :: bitmap where
  "strip =
     \<lparr>width = 8, height = 3,
      data = replicate 20 0 @ [255, 71, 87, 255] @ replicate 68 0 @ [255, 71, 87, 255]\<rparr>"

definition tablet :: editor where
  "tablet = studio\<lparr>canvas := strip, dpr := 13 / 8, rect := at_origin 5 2, natural := (92, 3)\<rparr>"

text \<open>A backend at \<^verbatim>\<open>http://api\<close> that answers the POST with the status \<open>ok\<close>, and
  one that cannot be reached.\<close>

definition service :: "bool \<Rightarrow> env" where
  "service ok =
     \<lparr>backend = ''http://api'', fetched = Some (Bytes ''photo''), rand = (\<lambda>k. 0),
      encodes = True, session = Some ''token'', response = Some (ok, Bytes ''xray''),
      objectURL = ''blob:1'', now = 1730\<rparr>"

definition offline :: env where
  "offline = (service True)\<lparr>response := None\<rparr>"

subsection \<open>Notions of the submission\<close>

text \<open>The call reaches the POST: the image was fetched and \<^verbatim>\<open>toBlob\<close> gave a blob.\<close>

definition proceeds :: "env \<Rightarrow> editor \<Rightarrow> bool" where
  "proceeds env s =
     (fetched env \<noteq> None \<and> width (croppedCanvas env s) \<noteq> 0
      \<and> height (croppedCanvas env s) \<noteq> 0 \<and> encodes env)"


text \<open>No pixel of the bitmap is painted.\<close>

definition transparent :: "bitmap \<Rightarrow> bool" where
  "transparent img = (\<forall>x < width img. \<forall>y < height img. \<not> painted img x y)"

text \<open>The form of the POST, the second request of a call that proceeds.\<close>

definition posted :: "outcome \<Rightarrow> formdata" where
  "posted out = (case sent out of [g, p] \<Rightarrow> payload p | _ \<Rightarrow> [])"

subsection \<open>Reachable states\<close>

text \<open>
  The states the component can be in. It starts with both stacks empty, and
  \<^verbatim>\<open>onImageLoad\<close> empties them again. The handlers modelled above are steps; every
  other handler (pointer moves, the end of a stroke, a resize, the choice of a tool)
  leaves the two stacks as they are, whatever else it changes.
\<close>

inductive reachable :: "editor \<Rightarrow> bool" where
  fresh: "undoStack s = [] \<Longrightarrow> redoStack s = [] \<Longrightarrow> reachable s"
| step_pushUndo: "reachable s \<Longrightarrow> reachable (pushUndo snap s)"
| step_undo: "reachable s \<Longrightarrow> reachable (undo snap s)"
| step_redo: "reachable s \<Longrightarrow> reachable (redo snap s)"
| step_clearCanvas: "reachable s \<Longrightarrow> reachable (clearCanvas snap snap2 s)"
| step_onPointerDown: "reachable s \<Longrightarrow> reachable (onPointerDown snap e s)"
| step_restore_onload: "reachable s \<Longrightarrow> reachable (restore_onload snap resampled i s)"
| step_breakBones: "reachable s \<Longrightarrow> reachable (final (breakBones env s))"
| step_other:
    "reachable s \<Longrightarrow> undoStack s' = undoStack s \<Longrightarrow> redoStack s' = redoStack s \<Longrightarrow> reachable s'"

section \<open>Rounding to binary64\<close>

lemma ties_even_of_int [simp]: "ties_even (of_int n) = n"
  by (simp add: ties_even_def)

lemma ties_even_bounds: "\<lfloor>x\<rfloor> \<le> ties_even x \<and> ties_even x \<le> \<lfloor>x\<rfloor> + 1"
  by (simp add: ties_even_def Let_def)

lemma ties_even_near:
  assumes "\<bar>x - of_int m\<bar> < 1 / 2"
  shows "ties_even x = m"
proof (cases "of_int m \<le> x")
  case True
  then have "\<lfloor>x\<rfloor> = m" using assms by (intro floor_unique) auto
  then show ?thesis using assms True by (simp add: ties_even_def Let_def)
next
  case False
  then have "\<lfloor>x\<rfloor> = m - 1" using assms by (intro floor_unique) auto
  then show ?thesis using assms False by (auto simp: ties_even_def Let_def)
qed

lemma ties_even_mono:
  assumes "x \<le> y"
  shows "ties_even x \<le> ties_even y"
proof (cases "\<lfloor>x\<rfloor> = \<lfloor>y\<rfloor>")
  case True
  then show ?thesis using assms by (auto simp: ties_even_def Let_def)
next
  case False
  then have "\<lfloor>x\<rfloor> + 1 \<le> \<lfloor>y\<rfloor>" using floor_mono [OF assms] by linarith
  then show ?thesis using ties_even_bounds [of x] ties_even_bounds [of y] by linarith
qed

lemma two_powi_pos [simp]: "0 < (2::rat) powi k"
  by (simp add: power_int_def)

lemma two_powi_mono: "j \<le> k \<Longrightarrow> (2::rat) powi j \<le> 2 powi k"
  by (rule power_int_increasing) simp_all

lemma two_powi_strict: "j < k \<Longrightarrow> (2::rat) powi j < 2 powi k"
  by (rule power_int_strict_increasing) simp_all

lemma expo_bounds:
  assumes "0 < x"
  shows "2 powi expo x \<le> x \<and> x < 2 powi (expo x + 1)"
proof -
  obtain p q where pq: "quotient_of x = (p, q)" by (cases "quotient_of x")
  have q: "0 < q" using quotient_of_denom_pos [OF pq] .
  have x: "x = of_int p / of_int q" using quotient_of_div [OF pq] .
  have p: "0 < p" using assms q by (simp add: x zero_less_divide_iff)
  define fp where "fp = floorlog 2 (nat p)"
  define fq where "fq = floorlog 2 (nat q)"
  have bp: "2 ^ (fp - 1) \<le> nat p \<and> nat p < 2 ^ fp"
    unfolding fp_def using p by (intro floorlog_bounds) simp_all
  have bq: "2 ^ (fq - 1) \<le> nat q \<and> nat q < 2 ^ fq"
    unfolding fq_def using q by (intro floorlog_bounds) simp_all
  have fp1: "1 \<le> fp" using p by (simp add: fp_def floorlog_def)
  have fq1: "1 \<le> fq" using q by (simp add: fq_def floorlog_def)
  have P: "(2::rat) ^ (fp - 1) \<le> of_int p" "of_int p < (2::rat) ^ fp"
  proof -
    have "of_nat (2 ^ (fp - 1)) \<le> (of_nat (nat p) :: rat)" using bp by (simp only: of_nat_le_iff)
    then show "(2::rat) ^ (fp - 1) \<le> of_int p" using p by simp
    have "(of_nat (nat p) :: rat) < of_nat (2 ^ fp)" using bp by (simp only: of_nat_less_iff)
    then show "of_int p < (2::rat) ^ fp" using p by simp
  qed
  have Q: "(2::rat) ^ (fq - 1) \<le> of_int q" "of_int q < (2::rat) ^ fq"
  proof -
    have "of_nat (2 ^ (fq - 1)) \<le> (of_nat (nat q) :: rat)" using bq by (simp only: of_nat_le_iff)
    then show "(2::rat) ^ (fq - 1) \<le> of_int q" using q by simp
    have "(of_nat (nat q) :: rat) < of_nat (2 ^ fq)" using bq by (simp only: of_nat_less_iff)
    then show "of_int q < (2::rat) ^ fq" using q by simp
  qed
  define e where "e = int fp - int fq"
  have Qpos: "(0::rat) < of_int q" using q by simp
  have up: "x < 2 powi (e + 1)"
  proof -
    have "x < 2 ^ fp / of_int q" unfolding x using P(2) Qpos by (simp add: divide_strict_right_mono)
    also have "\<dots> \<le> 2 ^ fp / 2 ^ (fq - 1)" using Q(1) by (simp add: frac_le)
    also have "\<dots> = 2 powi (int fp - int (fq - 1))" by (simp add: power_int_diff)
    also have "int fp - int (fq - 1) = e + 1" using fq1 by (simp add: e_def)
    finally show ?thesis .
  qed
  have lo: "2 powi (e - 1) < x"
  proof -
    have "e - 1 = int (fp - 1) - int fq" using fp1 by (simp add: e_def)
    then have "(2::rat) powi (e - 1) = 2 powi (int (fp - 1) - int fq)" by simp
    also have "\<dots> = 2 ^ (fp - 1) / 2 ^ fq" by (simp add: power_int_diff)
    also have "\<dots> < 2 ^ (fp - 1) / of_int q" using Q(2) Qpos by (simp add: frac_less2)
    also have "\<dots> \<le> x" unfolding x using P(1) Qpos by (simp add: divide_right_mono)
    finally show ?thesis .
  qed
  have ex: "expo x = (if 2 powi e \<le> x then e else e - 1)"
    by (simp add: expo_def pq fp_def fq_def e_def Let_def)
  show ?thesis
    using up lo by (auto simp: ex)
qed

lemma expo_unique:
  assumes "2 powi k \<le> x" "x < 2 powi (k + 1)"
  shows "expo x = k"
proof -
  have pos: "0 < x" using assms(1) two_powi_pos [of k] by linarith
  have b: "2 powi expo x \<le> x" "x < 2 powi (expo x + 1)" using expo_bounds [OF pos] by simp_all
  have "\<not> expo x + 1 \<le> k"
    using two_powi_mono [of "expo x + 1" k] b(2) assms(1) by linarith
  moreover have "\<not> k + 1 \<le> expo x"
    using two_powi_mono [of "k + 1" "expo x"] b(1) assms(2) by linarith
  ultimately show ?thesis by linarith
qed

lemma fl_0 [simp]: "fl 0 = 0"
  by (simp add: fl_def)

lemma fl_minus: "fl (- x) = - fl x"
  by (simp add: fl_def Let_def sgn_minus)

lemma fl_positive:
  assumes "2 powi k \<le> x" "x < 2 powi (k + 1)"
  shows "fl x = of_int (ties_even (x / 2 powi (k - 52))) * 2 powi (k - 52)"
proof -
  have pos: "0 < x" using assms(1) two_powi_pos [of k] by linarith
  have "expo \<bar>x\<bar> = k" using assms pos by (intro expo_unique) simp_all
  then show ?thesis using pos by (simp add: fl_def Let_def)
qed

lemma fl_eqI:
  assumes "2 powi k \<le> x" "x < 2 powi (k + 1)" "\<bar>x / 2 powi (k - 52) - of_int m\<bar> < 1 / 2"
  shows "fl x = of_int m * 2 powi (k - 52)"
  using fl_positive [OF assms(1,2)] ties_even_near [OF assms(3)] by simp

lemma mantissa_bounds:
  assumes "2 powi k \<le> (x::rat)" "x < 2 powi (k + 1)"
  shows "2 ^ 52 \<le> x / 2 powi (k - 52)" "x / 2 powi (k - 52) < 2 ^ 53"
proof -
  have a: "(2::rat) powi k = 2 ^ 52 * 2 powi (k - 52)"
    using power_int_add [of "2::rat" 52 "k - 52"] by simp
  have b: "(2::rat) powi (k + 1) = 2 ^ 53 * 2 powi (k - 52)"
    using power_int_add [of "2::rat" 53 "k - 52"] by (simp add: add.commute)
  show "2 ^ 52 \<le> x / 2 powi (k - 52)"
    using assms(1) unfolding a by (simp add: pos_le_divide_eq)
  show "x / 2 powi (k - 52) < 2 ^ 53"
    using assms(2) unfolding b by (simp add: pos_divide_less_eq)
qed

lemma fl_range:
  assumes "2 powi k \<le> x" "x < 2 powi (k + 1)"
  shows "2 powi k \<le> fl x" "fl x \<le> 2 powi (k + 1)"
proof -
  let ?u = "(2::rat) powi (k - 52)"
  let ?n = "ties_even (x / ?u)"
  have f: "fl x = of_int ?n * ?u" by (rule fl_positive [OF assms])
  have "ties_even (of_int (2 ^ 52)) \<le> ?n"
    using mantissa_bounds(1) [OF assms] by (intro ties_even_mono) simp
  then have lo: "(2::rat) ^ 52 \<le> of_int ?n"
    by (simp only: ties_even_of_int) (metis of_int_le_iff of_int_numeral of_int_power)
  have "?n \<le> ties_even (of_int (2 ^ 53))"
    using mantissa_bounds(2) [OF assms] by (intro ties_even_mono) simp
  then have hi: "of_int ?n \<le> (2::rat) ^ 53"
    by (simp only: ties_even_of_int) (metis of_int_le_iff of_int_numeral of_int_power)
  have a: "(2::rat) powi k = 2 ^ 52 * ?u"
    using power_int_add [of "2::rat" 52 "k - 52"] by simp
  have b: "(2::rat) powi (k + 1) = 2 ^ 53 * ?u"
    using power_int_add [of "2::rat" 53 "k - 52"] by (simp add: add.commute)
  show "2 powi k \<le> fl x" unfolding f a using lo by (simp add: mult_right_mono)
  show "fl x \<le> 2 powi (k + 1)" unfolding f b using hi by (simp add: mult_right_mono)
qed

lemma two_powi_Suc: "(2::rat) powi (j + 1) = 2 powi j * 2"
  using power_int_add [of "2::rat" j 1] by simp

lemma ties_even_0 [simp]: "ties_even 0 = 0"
  by (simp add: ties_even_def)

lemma ties_even_numeral [simp]: "ties_even (numeral n) = numeral n"
  using ties_even_of_int [of "numeral n"] by simp

lemma expo_of_pos:
  assumes "0 < (x::rat)"
  shows "2 powi expo x \<le> x" "x < 2 powi (expo x + 1)"
  using expo_bounds [OF assms] by simp_all

lemma fl_exact_pos:
  assumes "0 < m" "m \<le> 2 ^ 53"
  shows "fl (of_int m * 2 powi j) = of_int m * 2 powi j"
proof -
  let ?x = "of_int m * (2::rat) powi j"
  have pos: "0 < ?x" using assms(1) by simp
  define k where "k = expo ?x"
  have b: "2 powi k \<le> ?x" "?x < 2 powi (k + 1)"
    unfolding k_def using expo_of_pos [OF pos] by simp_all
  have "\<exists>n. ?x / 2 powi (k - 52) = of_int n"
  proof (cases "k - 52 \<le> j")
    case True
    have "?x / 2 powi (k - 52) = of_int m * 2 powi (j - (k - 52))"
      by (simp add: power_int_diff)
    also have "\<dots> = of_int m * 2 ^ nat (j - (k - 52))"
      using True by (simp add: power_int_def)
    also have "\<dots> = of_int (m * 2 ^ nat (j - (k - 52)))"
      by simp
    finally show ?thesis by blast
  next
    case False
    have "of_int m \<le> (2::rat) ^ 53"
      using assms(2) by (metis of_int_le_iff of_int_numeral of_int_power)
    then have "?x \<le> 2 ^ 53 * 2 powi j"
      by (simp add: mult_right_mono)
    also have "\<dots> = 2 powi (53 + j)"
      using power_int_add [of "2::rat" 53 j] by simp
    finally have "2 powi k \<le> (2::rat) powi (53 + j)" using b(1) by linarith
    then have "k \<le> 53 + j"
      using two_powi_strict [of "53 + j" k] by (cases "k \<le> 53 + j") auto
    then have k: "k = 53 + j" using False by linarith
    have "(2::rat) powi (53 + j) \<le> ?x" using b(1) k by simp
    then have "2 ^ 53 * 2 powi j \<le> of_int m * (2::rat) powi j"
      using power_int_add [of "2::rat" 53 j] by simp
    then have "(2::rat) ^ 53 \<le> of_int m" by simp
    then have "2 ^ 53 \<le> m"
      by (metis of_int_le_iff of_int_numeral of_int_power)
    then have m: "m = 2 ^ 53" using assms(2) by linarith
    have "?x / 2 powi (k - 52) = 2 ^ 53 * 2 powi j / 2 powi (j + 1)"
      by (simp add: m k add.commute)
    also have "\<dots> = of_int (2 ^ 52)"
      by (simp add: two_powi_Suc)
    finally show ?thesis by blast
  qed
  then obtain n where n: "?x / 2 powi (k - 52) = of_int n" by blast
  have "fl ?x = of_int (ties_even (?x / 2 powi (k - 52))) * 2 powi (k - 52)"
    by (rule fl_positive [OF b])
  also have "\<dots> = ?x / 2 powi (k - 52) * 2 powi (k - 52)"
    by (simp only: n ties_even_of_int)
  also have "\<dots> = ?x" by simp
  finally show ?thesis .
qed

lemma fl_exact:
  assumes "\<bar>m\<bar> \<le> 2 ^ 53"
  shows "fl (of_int m * 2 powi j) = of_int m * 2 powi j"
proof (cases "m = 0")
  case True
  then show ?thesis by simp
next
  case False
  show ?thesis
  proof (cases "0 < m")
    case True
    then show ?thesis using assms by (intro fl_exact_pos) simp_all
  next
    case neg: False
    have "fl (of_int (- m) * 2 powi j) = of_int (- m) * 2 powi j"
      using neg False assms by (intro fl_exact_pos) simp_all
    then show ?thesis using fl_minus [of "of_int m * 2 powi j"] by simp
  qed
qed

lemma fl_of_int: "\<bar>m\<bar> \<le> 2 ^ 53 \<Longrightarrow> fl (of_int m) = of_int m"
  using fl_exact [of m 0] by simp

lemma fl_of_nat: "n \<le> 2 ^ 53 \<Longrightarrow> fl (of_nat n) = of_nat n"
  using fl_of_int [of "int n"] by simp

lemma fl_numeral: "(numeral n :: int) \<le> 2 ^ 53 \<Longrightarrow> fl (numeral n) = numeral n"
  using fl_of_int [of "numeral n"] by simp

lemma fl_1 [simp]: "fl 1 = 1"
  using fl_of_int [of 1] by simp

lemma fl_scale: "fl (x * 2 powi j) = fl x * 2 powi j"
proof -
  have pos: "fl (x * 2 powi j) = fl x * 2 powi j" if "0 < x" for x :: rat
  proof -
    define k where "k = expo x"
    have b: "2 powi k \<le> x" "x < 2 powi (k + 1)"
      unfolding k_def using expo_of_pos [OF that] by simp_all
    have c: "2 powi (k + j) \<le> x * 2 powi j" "x * 2 powi j < 2 powi (k + j + 1)"
      using b power_int_add [of "2::rat" k j] power_int_add [of "2::rat" "k + 1" j]
      by (simp_all add: add.commute add.left_commute)
    have "x * 2 powi j / 2 powi (k + j - 52) = x / 2 powi (k - 52)"
      using power_int_add [of "2::rat" "k - 52" j] by (simp add: add.commute algebra_simps)
    moreover have "(2::rat) powi (k + j - 52) = 2 powi (k - 52) * 2 powi j"
      using power_int_add [of "2::rat" "k - 52" j] by (simp add: add.commute algebra_simps)
    ultimately show ?thesis
      using fl_positive [OF b] fl_positive [OF c] by simp
  qed
  consider "x = 0" | "0 < x" | "x < 0" by linarith
  then show ?thesis
  proof cases
    case 1
    then show ?thesis by simp
  next
    case 2
    then show ?thesis by (rule pos)
  next
    case 3
    then have "fl (- x * 2 powi j) = fl (- x) * 2 powi j" by (intro pos) simp
    then show ?thesis using fl_minus [of "x * 2 powi j"] fl_minus [of x] by simp
  qed
qed

lemma fl_half: "fl (x / 2) = fl x / 2"
  using fl_scale [of x "- 1"] by (simp add: field_simps)

lemma fl_quarter: "fl (x / 4) = fl x / 4"
  using fl_scale [of x "- 2"] by (simp add: field_simps power_int_minus_divide)

lemma fl_eighth: "fl (x / 8) = fl x / 8"
  using fl_scale [of x "- 3"] by (simp add: field_simps power_int_minus_divide)

lemma fl_idem [simp]: "fl (fl x) = fl x"
proof -
  have pos: "fl (fl x) = fl x" if "0 < x" for x :: rat
  proof -
    define k where "k = expo x"
    have b: "2 powi k \<le> x" "x < 2 powi (k + 1)"
      unfolding k_def using expo_of_pos [OF that] by simp_all
    let ?n = "ties_even (x / 2 powi (k - 52))"
    have f: "fl x = of_int ?n * 2 powi (k - 52)" by (rule fl_positive [OF b])
    have "0 \<le> ?n"
      using ties_even_mono [of 0 "x / 2 powi (k - 52)"] that by simp
    moreover have "?n \<le> ties_even (of_int (2 ^ 53))"
      using mantissa_bounds(2) [OF b] by (intro ties_even_mono) simp
    ultimately have "\<bar>?n\<bar> \<le> 2 ^ 53" by simp
    then show ?thesis unfolding f by (rule fl_exact)
  qed
  consider "x = 0" | "0 < x" | "x < 0" by linarith
  then show ?thesis
  proof cases
    case 1
    then show ?thesis by simp
  next
    case 2
    then show ?thesis by (rule pos)
  next
    case 3
    then have "fl (fl (- x)) = fl (- x)" by (intro pos) simp
    then show ?thesis by (simp add: fl_minus)
  qed
qed

lemma fl_nonneg: "0 \<le> x \<Longrightarrow> 0 \<le> fl x"
proof (cases "x = 0")
  case True
  then show ?thesis by simp
next
  case False
  assume "0 \<le> x"
  then have pos: "0 < x" using False by simp
  show ?thesis
    using fl_range(1) [OF expo_of_pos [OF pos]] two_powi_pos [of "expo x"] by linarith
qed

lemma fl_mono_pos:
  assumes "0 < x" "x \<le> y"
  shows "fl x \<le> fl y"
proof -
  have ypos: "0 < y" using assms by linarith
  define k where "k = expo x"
  define l where "l = expo y"
  have b: "2 powi k \<le> x" "x < 2 powi (k + 1)"
    unfolding k_def using expo_of_pos [OF assms(1)] by simp_all
  have c: "2 powi l \<le> y" "y < 2 powi (l + 1)"
    unfolding l_def using expo_of_pos [OF ypos] by simp_all
  have "(2::rat) powi k < 2 powi (l + 1)" using b(1) c(2) assms(2) by linarith
  then have "k < l + 1"
    using two_powi_mono [of "l + 1" k] by (cases "k < l + 1") auto
  then consider "k = l" | "k + 1 \<le> l" by linarith
  then show ?thesis
  proof cases
    case 1
    have "x / 2 powi (k - 52) \<le> y / 2 powi (k - 52)"
      using assms(2) by (simp add: divide_right_mono)
    then have "ties_even (x / 2 powi (k - 52)) \<le> ties_even (y / 2 powi (k - 52))"
      by (rule ties_even_mono)
    then have "(of_int (ties_even (x / 2 powi (k - 52))) :: rat)
        \<le> of_int (ties_even (y / 2 powi (k - 52)))"
      by simp
    then show ?thesis
      using fl_positive [OF b] fl_positive [OF c] 1 by (simp add: mult_right_mono)
  next
    case 2
    have "fl x \<le> 2 powi (k + 1)" by (rule fl_range(2) [OF b])
    also have "\<dots> \<le> 2 powi l" using 2 by (rule two_powi_mono)
    also have "\<dots> \<le> fl y" by (rule fl_range(1) [OF c])
    finally show ?thesis .
  qed
qed

lemma fl_mono:
  assumes "x \<le> y"
  shows "fl x \<le> fl y"
proof -
  consider "0 < x" | "x \<le> 0" "0 \<le> y" | "y < 0" using assms by linarith
  then show ?thesis
  proof cases
    case 1
    then show ?thesis using assms by (rule fl_mono_pos)
  next
    case 2
    have "fl (- x) \<ge> 0" using 2(1) by (intro fl_nonneg) simp
    then have "fl x \<le> 0" by (simp add: fl_minus)
    then show ?thesis using fl_nonneg [OF 2(2)] by linarith
  next
    case 3
    then have "fl (- y) \<le> fl (- x)" using assms by (intro fl_mono_pos) simp_all
    then show ?thesis by (simp add: fl_minus)
  qed
qed

text \<open>Numbers with a short significand are not changed by the rounding.\<close>

lemma number_exact: "n \<le> 2 ^ 53 \<Longrightarrow> number n = of_nat n"
  by (simp add: number_def fl_of_nat)

lemma number_0 [simp]: "number 0 = 0"
  by (simp add: number_def)

lemma number_Suc_0 [simp]: "number (Suc 0) = 1"
  using number_exact [of 1] by simp

lemma number_numeral: "(numeral n :: int) \<le> 2 ^ 53 \<Longrightarrow> number (numeral n) = numeral n"
  using fl_numeral [of n] by (simp add: number_def)

lemmas fl_small = fl_numeral fl_half number_numeral fmul_def fdiv_def fsub_def

lemma number_pos: "0 < n \<Longrightarrow> 1 \<le> number n"
  unfolding number_def using fl_mono [of 1 "of_nat n"] by simp

text \<open>The quotients that are not binary64 numbers, in the editor \<open>tablet\<close>.\<close>

lemma fl_92_5: "fl (92 / 5) = 2589569785738035 / 140737488355328"
proof -
  have "fl (92 / 5) = of_int 5179139571476070 * 2 powi (4 - 52)"
    by (rule fl_eqI) (simp_all add: power_int_minus_divide)
  then show ?thesis by (simp add: power_int_minus_divide)
qed

lemma fl_tablet_x:
  "fl (25 / 8 * (2589569785738035 / 140737488355328)) = 8092405580431359 / 140737488355328"
proof -
  have "fl (25 / 8 * (2589569785738035 / 140737488355328))
      = of_int 8092405580431359 * 2 powi (5 - 52)"
    by (rule fl_eqI) (simp_all add: power_int_minus_divide)
  then show ?thesis by (simp add: power_int_minus_divide)
qed

lemma fl_4_3: "fl (4 / 3) = 6004799503160661 / 4503599627370496"
proof -
  have "fl (4 / 3) = of_int 6004799503160661 * 2 powi (0 - 52)"
    by (rule fl_eqI) (simp_all add: power_int_minus_divide)
  then show ?thesis by (simp add: power_int_minus_divide)
qed

lemma fl_4_3_fixed:
  "fl (6004799503160661 / 4503599627370496) = 6004799503160661 / 4503599627370496"
  using fl_idem [of "4 / 3"] unfolding fl_4_3 .

text \<open>A canvas and a display rectangle 320 wide over a capture 3024 wide: the factor to
  source space is the binary64 number next to 189/20, and its product with the column 50
  is rounded below 472 + 1/2.\<close>

lemma fl_189_20: "fl (189 / 20) = 2659938529915699 / 281474976710656"
proof -
  have "fl (189 / 20) = of_int 5319877059831398 * 2 powi (3 - 52)"
    by (rule fl_eqI) (simp_all add: power_int_minus_divide)
  then show ?thesis by (simp add: power_int_minus_divide)
qed

lemma fl_column_50:
  "fl (50 * (2659938529915699 / 281474976710656)) = 8312307905986559 / 17592186044416"
proof -
  have "fl (50 * (2659938529915699 / 281474976710656))
      = of_int 8312307905986559 * 2 powi (8 - 52)"
    by (rule fl_eqI) (simp_all add: power_int_minus_divide)
  then show ?thesis by (simp add: power_int_minus_divide)
qed

text \<open>A canvas nine pixels wide shown at three CSS pixels: the right edge of column 8 and
  the left edge of column 5 in display space, and their difference, just below 1.\<close>

lemma fl_8_3: "fl (8 / 3) = 6004799503160661 / 2251799813685248"
proof -
  have "fl (8 / 3) = of_int 6004799503160661 * 2 powi (1 - 52)"
    by (rule fl_eqI) (simp_all add: power_int_minus_divide)
  then show ?thesis by (simp add: power_int_minus_divide)
qed

lemma fl_5_3: "fl (5 / 3) = 7505999378950827 / 4503599627370496"
proof -
  have "fl (5 / 3) = of_int 7505999378950827 * 2 powi (0 - 52)"
    by (rule fl_eqI) (simp_all add: power_int_minus_divide)
  then show ?thesis by (simp add: power_int_minus_divide)
qed

lemma fl_below_1:
  "fl (4503599627370495 / 4503599627370496) = 4503599627370495 / 4503599627370496"
  using fl_exact [of 4503599627370495 "- 52"] by (simp add: power_int_minus_divide)

section \<open>The region scan\<close>

lemma set_pixels: "set (pixels xs ys) = set xs \<times> set ys"
  by (auto simp: pixels_def)

lemma fold_rows_pixels:
  "fold (\<lambda>y. fold (f y) xs) ys a = fold (\<lambda>(x, y). f y x) (pixels xs ys) a"
proof (induction ys arbitrary: a)
  case Nil
  show ?case by (simp add: pixels_def)
next
  case (Cons y ys)
  have row: "fold (f y) xs a = fold (\<lambda>(x, y). f y x) (map (\<lambda>x. (x, y)) xs) a"
    by (simp add: fold_map comp_def)
  show ?case
    using Cons.IH [of "fold (f y) xs a"] by (simp add: pixels_def row)
qed





text \<open>When every painted pixel of the list is (px, py), the scan leaves the accumulator
  as it was or has the four bounds at that pixel.\<close>

lemma visit_single:
  "painted img px py \<Longrightarrow> px \<le> minX a \<Longrightarrow> py \<le> minY a \<Longrightarrow> maxX a \<le> px \<Longrightarrow> maxY a \<le> py \<Longrightarrow>
     minX (visit rnd r img py px a) = px \<and> minY (visit rnd r img py px a) = py
   \<and> maxX (visit rnd r img py px a) = px \<and> maxY (visit rnd r img py px a) = py"
  by (auto simp: visit_def)




section \<open>The history stacks\<close>

lemma stacks_pushUndo:
  "undoStack (pushUndo snap s) =
     (if snap then (if length (undoStack s) < 25 then undoStack s @ [DataURL (canvas s)]
                    else tl (undoStack s) @ [DataURL (canvas s)])
      else undoStack s)"
  "redoStack (pushUndo snap s) = (if snap then [] else redoStack s)"
  by (cases "undoStack s"; simp add: pushUndo_def Let_def)+

lemma canvas_pushUndo: "canvas (pushUndo snap s) = canvas s"
  by (simp add: pushUndo_def Let_def)

lemma stacks_undo:
  "undoStack (undo snap s) = (if undoStack s \<noteq> [] \<and> snap then butlast (undoStack s) else undoStack s)"
  "redoStack (undo snap s) =
     (if undoStack s \<noteq> [] \<and> snap then redoStack s @ [DataURL (canvas s)] else redoStack s)"
  by (simp_all add: undo_def restoreFrom_def)

lemma stacks_redo:
  "redoStack (redo snap s) = (if redoStack s \<noteq> [] \<and> snap then butlast (redoStack s) else redoStack s)"
  "undoStack (redo snap s) =
     (if redoStack s \<noteq> [] \<and> snap then undoStack s @ [DataURL (canvas s)] else undoStack s)"
  by (simp_all add: redo_def restoreFrom_def)

lemma stacks_clearCanvas:
  "undoStack (clearCanvas snap snap2 s) = undoStack (pushUndo snap s)"
  "redoStack (clearCanvas snap snap2 s) = redoStack (pushUndo snap s)"
  by (simp_all add: clearCanvas_def Let_def)

lemma stacks_drawLine:
  "undoStack (drawLine x1 y1 x2 y2 pr s) = undoStack s"
  "redoStack (drawLine x1 y1 x2 y2 pr s) = redoStack s"
  by (simp_all add: drawLine_def Let_def)

lemma stacks_onPointerDown:
  "undoStack (onPointerDown snap e s) =
     (if button e = 1 \<or> button e = 2 then undoStack s else undoStack (pushUndo snap s))"
  "redoStack (onPointerDown snap e s) =
     (if button e = 1 \<or> button e = 2 then redoStack s else redoStack (pushUndo snap s))"
  by (simp_all add: onPointerDown_def drawPoint_def stacks_drawLine Let_def)

lemma stacks_restore_onload:
  "undoStack (restore_onload snap d i s) = undoStack s"
  "redoStack (restore_onload snap d i s) = redoStack s"
  by (simp_all add: restore_onload_def Let_def split: dataurl.splits)

lemma stacks_marked:
  "undoStack (marked env s) = undoStack s" "redoStack (marked env s) = redoStack s"
  by (simp_all add: marked_def outline_def triggerExplode_def Let_def split: prod.splits)

lemma stacks_breakBones:
  "(undoStack (final (breakBones env s)) = undoStack s \<and> redoStack (final (breakBones env s)) = redoStack s)
   \<or> (undoStack (final (breakBones env s)) = [] \<and> redoStack (final (breakBones env s)) = [])"
  by (simp add: breakBones_def Let_def stacks_marked split: option.splits prod.splits)

lemma reachable_total:
  "reachable s \<Longrightarrow> length (undoStack s) + length (redoStack s) \<le> 25"
proof (induction rule: reachable.induct)
  case (fresh s)
  then show ?case by simp
next
  case (step_pushUndo s snap)
  then show ?case by (auto simp: stacks_pushUndo)
next
  case (step_undo s snap)
  then show ?case by (cases "undoStack s" rule: rev_cases) (auto simp: stacks_undo)
next
  case (step_redo s snap)
  then show ?case by (cases "redoStack s" rule: rev_cases) (auto simp: stacks_redo)
next
  case (step_clearCanvas s snap snap2)
  then show ?case by (auto simp: stacks_clearCanvas stacks_pushUndo)
next
  case (step_onPointerDown s snap e)
  then show ?case by (auto simp: stacks_onPointerDown stacks_pushUndo)
next
  case (step_restore_onload s snap resampled i)
  then show ?case by (simp add: stacks_restore_onload)
next
  case (step_breakBones s env)
  then show ?case using stacks_breakBones [of env s] by auto
next
  case (step_other s s')
  then show ?case by simp
qed

text \<open>
  C3. In every reachable state the undo stack holds at most 25 entries, and so it does
  after \<^verbatim>\<open>pushUndo\<close> (alone, at the start of a stroke or in a clear), after \<^verbatim>\<open>undo\<close>
  and after \<^verbatim>\<open>redo\<close>, whether the snapshot of the call succeeds or not.
\<close>

theorem undo_capacity:
  "reachable s \<Longrightarrow>
     length (undoStack s) \<le> 25
   \<and> length (undoStack (pushUndo snap s)) \<le> 25
   \<and> length (undoStack (onPointerDown snap e s)) \<le> 25
   \<and> length (undoStack (clearCanvas snap snap2 s)) \<le> 25
   \<and> length (undoStack (undo snap s)) \<le> 25
   \<and> length (undoStack (redo snap s)) \<le> 25"
proof -
  assume r: "reachable s"
  have le: "length (undoStack t) \<le> 25" if "reachable t" for t
    using reachable_total [OF that] by simp
  show ?thesis
    using le [OF r] le [OF step_pushUndo [OF r]] le [OF step_onPointerDown [OF r]]
      le [OF step_clearCanvas [OF r]] le [OF step_undo [OF r]] le [OF step_redo [OF r]]
    by simp
qed

theorem undo_capacity_witness:
  "reachable undone
   \<and> length (undoStack undone) \<le> 25
   \<and> length (undoStack (pushUndo True undone)) \<le> 25
   \<and> length (undoStack (onPointerDown True (press 0) undone)) \<le> 25
   \<and> length (undoStack (clearCanvas True True undone)) \<le> 25
   \<and> length (undoStack (undo True undone)) \<le> 25
   \<and> length (undoStack (redo True undone)) \<le> 25"
proof -
  have "reachable studio"
    by (rule fresh) (simp_all add: studio_def)
  then have r: "reachable undone"
    unfolding undone_def by (intro step_undo step_pushUndo)
  show ?thesis
    using r undo_capacity [OF r, of True "press 0" True] by simp
qed

text \<open>
  C4 as stated fails: when the snapshot of \<^verbatim>\<open>pushUndo\<close> throws, the redo stack keeps
  its entries.
\<close>

theorem pushUndo_failed_keeps_redo:
  "redoStack (pushUndo False undone) = [DataURL one_dot]"
  by (simp add: undone_def stacks_pushUndo stacks_undo canvas_pushUndo) (simp add: studio_def)

text \<open>
  C4, amended. A call of \<^verbatim>\<open>pushUndo\<close> whose snapshot succeeds empties the redo stack
  and appends the snapshot to the undo stack; when the stack held 25 entries or more
  before, exactly its oldest entry is dropped. A call whose snapshot fails changes
  nothing.
\<close>

theorem pushUndo_records:
  "redoStack (pushUndo True s) = []
   \<and> (length (undoStack s) < 25 \<longrightarrow>
        undoStack (pushUndo True s) = undoStack s @ [DataURL (canvas s)])
   \<and> (25 \<le> length (undoStack s) \<longrightarrow>
        undoStack (pushUndo True s) = tl (undoStack s) @ [DataURL (canvas s)])
   \<and> pushUndo False s = s"
  by (simp add: stacks_pushUndo) (simp add: pushUndo_def)

theorem pushUndo_records_witness:
  "length (undoStack studio) < 25
   \<and> undoStack (pushUndo True studio) = [DataURL one_dot]
   \<and> 25 \<le> length (undoStack full)
   \<and> undoStack (pushUndo True full) = replicate 24 (DataURL one_dot) @ [DataURL one_dot]
   \<and> redoStack (pushUndo True full) = []
   \<and> pushUndo False full = full"
proof -
  have a: "undoStack studio = []" "canvas studio = one_dot"
    by (simp_all add: studio_def)
  have b: "undoStack full = DataURL (blank 2 2) # replicate 24 (DataURL one_dot)"
    "canvas full = one_dot"
    by (simp_all add: full_def studio_def)
  show ?thesis
    using pushUndo_records [of studio] pushUndo_records [of full] by (simp add: a b)
qed

section \<open>Undo followed by redo\<close>

lemma restore_onload_frame:
  "width (canvas (restore_onload snap d i s)) = width (canvas s)"
  "height (canvas (restore_onload snap d i s)) = height (canvas s)"
  "rect (restore_onload snap d i s) = rect s"
  "dpr (restore_onload snap d i s) = dpr s"
  by (simp_all add: restore_onload_def Let_def split: dataurl.splits)

lemma pending_restore_onload:
  "i < length (pending s) \<Longrightarrow>
     pending (restore_onload snap d i s) = take i (pending s) @ drop (Suc i) (pending s)"
  by (simp add: restore_onload_def Let_def split: dataurl.splits)

lemma aligned_restore_onload: "aligned s \<Longrightarrow> aligned (restore_onload snap d i s)"
  by (simp add: aligned_def restore_onload_frame)

lemma canvas_restored:
  "i < length (pending s) \<Longrightarrow> pending s ! i = DataURL c \<Longrightarrow> width c = width (canvas s) \<Longrightarrow>
   height c = height (canvas s) \<Longrightarrow> aligned s \<Longrightarrow>
     canvas (restore_onload snap d i s) = c"
  by (cases c; cases "canvas s") (simp add: restore_onload_def Let_def)

lemma canvas_resampled:
  "i < length (pending s) \<Longrightarrow> \<not> aligned s \<Longrightarrow>
     canvas (restore_onload snap d i s) = (canvas s)\<lparr>data := d\<rparr>"
  by (simp add: restore_onload_def Let_def split: dataurl.splits)

lemma loads_frame:
  "undoStack (loads es s) = undoStack s"
  "redoStack (loads es s) = redoStack s"
  "width (canvas (loads es s)) = width (canvas s)"
  "height (canvas (loads es s)) = height (canvas s)"
  by (induction es arbitrary: s) (simp_all add: stacks_restore_onload restore_onload_frame)

lemma aligned_loads: "aligned s \<Longrightarrow> aligned (loads es s)"
  by (induction es arbitrary: s) (simp_all add: aligned_restore_onload)

lemma canvas_undo: "canvas (undo snap s) = canvas s"
  by (simp add: undo_def restoreFrom_def)

lemma canvas_redo: "canvas (redo snap s) = canvas s"
  by (simp add: redo_def restoreFrom_def)

lemma aligned_undo: "aligned (undo snap s) = aligned s"
  by (simp add: undo_def restoreFrom_def aligned_def)

lemma aligned_redo: "aligned (redo snap s) = aligned s"
  by (simp add: redo_def restoreFrom_def aligned_def)

text \<open>Callbacks of older images leave the youngest pending image the last of the list.\<close>

lemma older_only_keeps:
  "pending s = ps @ [y] \<Longrightarrow> older_only es s \<Longrightarrow> \<exists>qs. pending (loads es s) = qs @ [y]"
proof (induction es arbitrary: s ps)
  case Nil
  then show ?case by simp
next
  case (Cons e es)
  let ?t = "restore_onload (fst (snd e)) (snd (snd e)) (fst e) s"
  have i: "fst e < length ps" "fst e < length (pending s)"
    using Cons.prems by simp_all
  have "pending ?t = take (fst e) (pending s) @ drop (Suc (fst e)) (pending s)"
    by (rule pending_restore_onload [OF i(2)])
  also have "\<dots> = (take (fst e) ps @ drop (Suc (fst e)) ps) @ [y]"
    using i(1) Cons.prems(1) by simp
  finally have p: "pending ?t = (take (fst e) ps @ drop (Suc (fst e)) ps) @ [y]" .
  have "older_only es ?t" using Cons.prems(2) by simp
  from Cons.IH [OF p this] show ?case by simp
qed

lemma youngest_restored:
  assumes "pending s = ps @ [DataURL c]" "width c = width (canvas s)"
    "height c = height (canvas s)" "aligned s"
  shows "canvas (youngest_load snap d s) = c"
  unfolding youngest_load_def
  by (rule canvas_restored) (simp_all add: assms)

text \<open>
  C5 as stated fails, in two ways. On a display with a device pixel ratio of 3/2 the
  snapshot is redrawn over one and a half of the two device pixels of the canvas, so the
  overlay after undo and redo is a resampling of the bitmap before the undo, not that
  bitmap. And on an aligned canvas, when the image of the redo loads before the image of
  the undo, the overlay ends as the undone snapshot.
\<close>

theorem undo_redo_not_exact:
  "undoStack hidpi = [DataURL (blank 2 2)]
   \<and> canvas (loads [(0, True, faded)] (redo True (loads [(0, True, replicate 16 0)] (undo True hidpi))))
       = \<lparr>width = 2, height = 2, data = faded\<rparr>
   \<and> canvas (loads [(0, True, faded)] (redo True (loads [(0, True, replicate 16 0)] (undo True hidpi))))
       \<noteq> canvas hidpi
   \<and> undoStack stroked = [DataURL (blank 2 2)]
   \<and> canvas (loads [(1, True, []), (0, True, [])] (redo True (undo True stroked))) = blank 2 2
   \<and> canvas (loads [(1, True, []), (0, True, [])] (redo True (undo True stroked)))
       \<noteq> canvas stroked"
proof -
  have h: "undoStack hidpi = [DataURL (blank 2 2)]" "canvas hidpi = one_dot" "pending hidpi = []"
    "redoStack hidpi = []" "\<not> aligned hidpi"
    by (simp_all add: hidpi_def stroked_def studio_def aligned_def at_origin_def one_dot_def)
  have s: "undoStack stroked = [DataURL (blank 2 2)]" "canvas stroked = one_dot"
    "pending stroked = []" "redoStack stroked = []" "aligned stroked"
    by (simp_all add: stroked_def studio_def aligned_def at_origin_def one_dot_def)
  let ?u = "undo True hidpi"
  have u: "pending ?u = [DataURL (blank 2 2)]" "redoStack ?u = [DataURL one_dot]" "\<not> aligned ?u"
    using h by (simp_all add: undo_def restoreFrom_def aligned_def)
  let ?l = "loads [(0, True, replicate 16 0)] ?u"
  have l: "pending ?l = []" "redoStack ?l = [DataURL one_dot]" "\<not> aligned ?l"
    "width (canvas ?l) = 2" "height (canvas ?l) = 2"
    using u h
    by (simp_all add: pending_restore_onload stacks_restore_onload restore_onload_frame
        aligned_def canvas_undo one_dot_def)
  let ?r = "redo True ?l"
  have r: "pending ?r = [DataURL one_dot]" "\<not> aligned ?r" "width (canvas ?r) = 2"
    "height (canvas ?r) = 2"
    using l by (simp_all add: redo_def restoreFrom_def aligned_def)
  have a: "canvas (loads [(0, True, faded)] ?r) = \<lparr>width = 2, height = 2, data = faded\<rparr>"
    using r by (cases "canvas ?r") (simp add: canvas_resampled)
  let ?v = "redo True (undo True stroked)"
  have v: "pending ?v = [DataURL (blank 2 2), DataURL one_dot]" "aligned ?v"
    "canvas ?v = one_dot"
    using s by (simp_all add: undo_def redo_def restoreFrom_def aligned_def)
  let ?w = "restore_onload True [] 1 ?v"
  have w: "pending ?w = [DataURL (blank 2 2)]" "aligned ?w" "width (canvas ?w) = 2"
    "height (canvas ?w) = 2"
    using v
    by (simp_all add: pending_restore_onload aligned_restore_onload restore_onload_frame one_dot_def)
  have b: "canvas (loads [(1, True, []), (0, True, [])] ?v) = blank 2 2"
    using w by (simp add: canvas_restored blank_def)
  have "\<lparr>width = 2, height = 2, data = faded\<rparr> \<noteq> one_dot" "blank 2 2 \<noteq> one_dot"
    by (simp_all add: faded_def one_dot_def blank_def eval_nat_numeral)
  then show ?thesis
    using h(1,2) s(1,2) a b by simp
qed

text \<open>
  C5, amended. From a state with an entry on the undo stack whose backing store is
  aligned with the display rectangle, \<^verbatim>\<open>undo\<close> followed by \<^verbatim>\<open>redo\<close> (both snapshots
  succeeding) leaves the overlay with the bitmap it had before the undo when the image of
  the redo has loaded, provided the images that load between the call of \<^verbatim>\<open>redo\<close> and
  that moment (\<open>es2\<close>) are older ones; the images that load between the two calls (\<open>es1\<close>)
  are arbitrary. With an empty undo stack \<^verbatim>\<open>undo\<close> changes nothing, and with an empty
  redo stack \<^verbatim>\<open>redo\<close> changes nothing.
\<close>

theorem undo_redo_restores:
  "(undoStack s \<noteq> [] \<and> aligned s \<and> older_only es2 (redo True (loads es1 (undo True s))) \<longrightarrow>
      canvas (youngest_load k d (loads es2 (redo True (loads es1 (undo True s))))) = canvas s)
   \<and> (undoStack s = [] \<longrightarrow> undo snap s = s)
   \<and> (redoStack s = [] \<longrightarrow> redo snap s = s)"
proof (intro conjI impI)
  assume "undoStack s = []"
  then show "undo snap s = s" by (simp add: undo_def)
next
  assume "redoStack s = []"
  then show "redo snap s = s" by (simp add: redo_def)
next
  assume h: "undoStack s \<noteq> [] \<and> aligned s \<and> older_only es2 (redo True (loads es1 (undo True s)))"
  let ?u = "undo True s"
  let ?l = "loads es1 ?u"
  let ?r = "redo True ?l"
  let ?m = "loads es2 ?r"
  have u: "redoStack ?u = redoStack s @ [DataURL (canvas s)]"
    using h by (simp add: undo_def restoreFrom_def)
  have l: "redoStack ?l = redoStack s @ [DataURL (canvas s)]"
    "width (canvas ?l) = width (canvas s)" "height (canvas ?l) = height (canvas s)"
    "aligned ?l"
    using h u by (simp_all add: loads_frame canvas_undo aligned_loads aligned_undo)
  have r: "pending ?r = pending ?l @ [DataURL (canvas s)]"
    using l(1) by (simp add: redo_def restoreFrom_def)
  obtain qs where m: "pending ?m = qs @ [DataURL (canvas s)]"
    using older_only_keeps [OF r] h by blast
  have f: "width (canvas s) = width (canvas ?m)" "height (canvas s) = height (canvas ?m)"
    "aligned ?m"
    using l by (simp_all add: loads_frame canvas_redo aligned_loads aligned_redo)
  show "canvas (youngest_load k d ?m) = canvas s"
    by (rule youngest_restored [OF m f])
qed

theorem undo_redo_restores_witness:
  "undoStack stroked \<noteq> [] \<and> aligned stroked
   \<and> older_only [] (redo True (loads [(0, True, [])] (undo True stroked)))
   \<and> canvas (loads [(0, True, [])] (undo True stroked)) = blank 2 2
   \<and> canvas (youngest_load True [] (loads [] (redo True (loads [(0, True, [])] (undo True stroked)))))
       = one_dot
   \<and> older_only [(0, True, [])] (redo True (loads [] (undo True stroked)))
   \<and> canvas (youngest_load True [] (loads [(0, True, [])] (redo True (loads [] (undo True stroked)))))
       = one_dot
   \<and> undoStack studio = [] \<and> undo True studio = studio
   \<and> redoStack studio = [] \<and> redo True studio = studio"
proof -
  have s: "undoStack stroked \<noteq> []" "aligned stroked" "canvas stroked = one_dot"
    "pending stroked = []" "undoStack stroked = [DataURL (blank 2 2)]"
    by (simp_all add: stroked_def studio_def aligned_def at_origin_def one_dot_def)
  have e: "undoStack studio = []" "redoStack studio = []"
    by (simp_all add: studio_def)
  let ?u = "undo True stroked"
  have u: "pending ?u = [DataURL (blank 2 2)]" "aligned ?u" "canvas ?u = one_dot"
    using s by (simp_all add: undo_def restoreFrom_def aligned_def)
  have i: "canvas (loads [(0, True, [])] ?u) = blank 2 2"
    using u by (simp add: canvas_restored blank_def one_dot_def)
  have o: "older_only [(0, True, [])] (redo True (loads [] ?u))"
    using u s by (simp add: redo_def undo_def restoreFrom_def)
  have a: "canvas (youngest_load True [] (loads [] (redo True (loads [(0, True, [])] ?u)))) = one_dot"
    using s undo_redo_restores [where s = stroked and ?es1.0 = "[(0, True, [])]" and ?es2.0 = "[]"
        and k = True and d = "[]"]
    by simp
  have b: "canvas (youngest_load True [] (loads [(0, True, [])] (redo True (loads [] ?u)))) = one_dot"
    using s o undo_redo_restores [where s = stroked and ?es1.0 = "[]" and ?es2.0 = "[(0, True, [])]"
        and k = True and d = "[]"]
    by simp
  show ?thesis
    using s(1,2) e i a b o undo_redo_restores [where s = studio and snap = True]
    by simp
qed

section \<open>The pointer handler\<close>

lemma drawLine_frame:
  "drawing (drawLine x1 y1 x2 y2 pr s) = drawing s"
  "lastX (drawLine x1 y1 x2 y2 pr s) = lastX s"
  "lastY (drawLine x1 y1 x2 y2 pr s) = lastY s"
  by (simp_all add: drawLine_def Let_def)

lemma rect_pushUndo: "rect (pushUndo snap s) = rect s"
  by (simp add: pushUndo_def Let_def)

lemma pushUndo_frame:
  "tool (pushUndo snap s) = tool s" "brushColor (pushUndo snap s) = brushColor s"
  "brushSize (pushUndo snap s) = brushSize s" "dpr (pushUndo snap s) = dpr s"
  by (simp_all add: pushUndo_def Let_def)

lemma canvas_drawLine_cong:
  "tool t = tool s \<Longrightarrow> brushColor t = brushColor s \<Longrightarrow> brushSize t = brushSize s \<Longrightarrow>
   dpr t = dpr s \<Longrightarrow> canvas t = canvas s \<Longrightarrow>
     canvas (drawLine x1 y1 x2 y2 pr t) = canvas (drawLine x1 y1 x2 y2 pr s)"
  by (simp add: drawLine_def Let_def)

lemma upt_16: "[0..<16] = [0, 1, 2, 3, 4, 5, 6, 7, 8, 9, 10, 11, 12, 13, 14, 15]"
  by (simp add: upt_rec)

lemma covered_dot:
  "x < 2 \<Longrightarrow> y < 2 \<Longrightarrow> covered_segment Round 1 7 (1 / 2, 1 / 2) (1 / 2, 1 / 2) x y"
proof -
  assume "x < 2" "y < 2"
  then have "(x = 0 \<or> x = 1) \<and> (y = 0 \<or> y = 1)" by auto
  then show ?thesis
    by (auto simp: covered_segment_def in_segment_stroke_def sq_def Let_def)
qed

text \<open>
  C9 as stated fails: a pointer-down with the button code 3 (the fourth button of a
  mouse) records a history entry and starts a stroke.
\<close>

theorem fourth_button_starts_stroke:
  "drawing (onPointerDown True (press 3) studio)
   \<and> undoStack (onPointerDown True (press 3) studio) = [DataURL one_dot]
   \<and> canvas (onPointerDown True (press 3) studio)
       = \<lparr>width = 2, height = 2,
          data = [255,71,87,255, 255,71,87,255, 255,71,87,255, 255,71,87,255]\<rparr>"
proof -
  have b: "button (press 3) \<noteq> 1" "button (press 3) \<noteq> 2"
    by (simp_all add: press_def)
  have d: "drawing (onPointerDown True (press 3) studio)"
    by (simp add: onPointerDown_def Let_def drawPoint_def drawLine_frame b)
  have u: "undoStack (onPointerDown True (press 3) studio) = [DataURL one_dot]"
    by (simp add: stacks_onPointerDown stacks_pushUndo b) (simp add: studio_def)
  have c: "canvas (onPointerDown True (press 3) studio)
       = \<lparr>width = 2, height = 2,
          data = [255,71,87,255, 255,71,87,255, 255,71,87,255, 255,71,87,255]\<rparr>"
    by (simp add: onPointerDown_def press_def studio_def at_origin_def pushUndo_def Let_def
        drawPoint_def drawLine_def ink_def pointerPos_def stroke_def fill_def one_dot_def upt_16
        covered_dot fl_small)
  show ?thesis using d u c by simp
qed

text \<open>
  C9, amended. A pointer-down event is ignored exactly when its button code is 1 (middle)
  or 2 (secondary). With every other button code, the primary one and any code that is
  neither 1 nor 2, the handler records the history entry of \<^verbatim>\<open>pushUndo\<close>, enters the
  drawing state, stores the pointer position and draws a single-point stroke there.
\<close>

theorem onPointerDown_buttons:
  "(button e = 1 \<or> button e = 2 \<longrightarrow> onPointerDown snap e s = s)
   \<and> (button e \<noteq> 1 \<and> button e \<noteq> 2 \<longrightarrow>
        drawing (onPointerDown snap e s)
      \<and> undoStack (onPointerDown snap e s) = undoStack (pushUndo snap s)
      \<and> redoStack (onPointerDown snap e s) = redoStack (pushUndo snap s)
      \<and> (lastX (onPointerDown snap e s), lastY (onPointerDown snap e s)) = pointerPos e s
      \<and> canvas (onPointerDown snap e s)
          = canvas (drawPoint (fst (pointerPos e s)) (snd (pointerPos e s))
                      (if 0 < pressure e then pressure e else 1) s))"
proof (intro conjI impI)
  assume "button e = 1 \<or> button e = 2"
  then show "onPointerDown snap e s = s" by (simp add: onPointerDown_def)
next
  assume b: "button e \<noteq> 1 \<and> button e \<noteq> 2"
  show "drawing (onPointerDown snap e s)"
    using b by (simp add: onPointerDown_def Let_def drawPoint_def drawLine_frame)
  show "undoStack (onPointerDown snap e s) = undoStack (pushUndo snap s)"
    using b by (simp add: stacks_onPointerDown)
  show "redoStack (onPointerDown snap e s) = redoStack (pushUndo snap s)"
    using b by (simp add: stacks_onPointerDown)
  show "(lastX (onPointerDown snap e s), lastY (onPointerDown snap e s)) = pointerPos e s"
    using b
    by (simp add: onPointerDown_def Let_def drawPoint_def drawLine_frame pointerPos_def
        rect_pushUndo)
  show "canvas (onPointerDown snap e s)
          = canvas (drawPoint (fst (pointerPos e s)) (snd (pointerPos e s))
                      (if 0 < pressure e then pressure e else 1) s)"
    using b
    by (simp add: onPointerDown_def Let_def drawPoint_def pointerPos_def rect_pushUndo)
      (auto intro!: canvas_drawLine_cong simp: pushUndo_frame canvas_pushUndo)
qed

theorem onPointerDown_buttons_witness:
  "button (press 2) = 2 \<and> onPointerDown True (press 2) studio = studio
   \<and> button (press 0) \<noteq> 1 \<and> button (press 0) \<noteq> 2
   \<and> drawing (onPointerDown True (press 0) studio)
   \<and> undoStack (onPointerDown True (press 0) studio) = [DataURL one_dot]
   \<and> redoStack (onPointerDown True (press 0) studio) = []
   \<and> (lastX (onPointerDown True (press 0) studio), lastY (onPointerDown True (press 0) studio))
       = (1 / 2, 1 / 2)"
proof -
  have b: "button (press 2) = 2" "button (press 0) \<noteq> 1" "button (press 0) \<noteq> 2"
    by (simp_all add: press_def)
  have p: "pointerPos (press 0) studio = (1 / 2, 1 / 2)"
    by (simp add: pointerPos_def press_def studio_def at_origin_def fl_small)
  have u: "undoStack (pushUndo True studio) = [DataURL one_dot]"
    "redoStack (pushUndo True studio) = []"
    by (simp_all add: stacks_pushUndo) (simp add: studio_def)
  show ?thesis
    using b onPointerDown_buttons [of "press 2" True studio]
      onPointerDown_buttons [of "press 0" True studio]
    by (simp add: p u)
qed

section \<open>The submission\<close>

lemma js_includes_iff: "js_includes s t \<longleftrightarrow> (\<exists>pre post. s = pre @ t @ post)"
proof (induction s)
  case Nil
  show ?case by auto
next
  case (Cons c s)
  show ?case
  proof
    assume "js_includes (c # s) t"
    then consider "prefix t (c # s)" | "js_includes s t" by auto
    then show "\<exists>pre post. c # s = pre @ t @ post"
    proof cases
      case 1
      then obtain post where "c # s = t @ post" by (auto simp: prefix_def)
      then have "c # s = [] @ t @ post" by simp
      then show ?thesis by blast
    next
      case 2
      then obtain pre post where "s = pre @ t @ post" using Cons.IH by blast
      then have "c # s = (c # pre) @ t @ post" by simp
      then show ?thesis by blast
    qed
  next
    assume "\<exists>pre post. c # s = pre @ t @ post"
    then obtain pre post where e: "c # s = pre @ t @ post" by blast
    show "js_includes (c # s) t"
    proof (cases pre)
      case Nil
      then have "prefix t (c # s)" using e by (simp add: prefix_def)
      then show ?thesis by simp
    next
      case (Cons d pre')
      then have "s = pre' @ t @ post" using e by simp
      then have "js_includes s t" using Cons.IH by blast
      then show ?thesis by simp
    qed
  qed
qed

lemma marked_eq:
  "marked env s =
     s\<lparr>path := path (marked env s), canvas := canvas (marked env s)\<rparr>"
  by (simp add: marked_def outline_def triggerExplode_def Let_def split: prod.splits)



lemma size_cropped:
  "width (cropped r c (x0, y0, x1, y1)) = canvas_dim (fsub x1 x0) 300"
  "height (cropped r c (x0, y0, x1, y1)) = canvas_dim (fsub y1 y0) 150"
  by (simp_all add: cropped_def Let_def)

lemma size_croppedCanvas:
  "width (croppedCanvas env s) =
     canvas_dim
       (fsub (fdiv (fmul (number (maxX (scan_overlay (rand env) (rect s) (canvas s))))
                      (rwidth (rect s))) (number (width (canvas s))))
             (fdiv (fmul (number (minX (scan_overlay (rand env) (rect s) (canvas s))))
                      (rwidth (rect s))) (number (width (canvas s))))) 300"
  "height (croppedCanvas env s) =
     canvas_dim
       (fsub (fdiv (fmul (number (maxY (scan_overlay (rand env) (rect s) (canvas s))))
                      (rheight (rect s))) (number (height (canvas s))))
             (fdiv (fmul (number (minY (scan_overlay (rand env) (rect s) (canvas s))))
                      (rheight (rect s))) (number (height (canvas s))))) 150"
  by (simp_all add: croppedCanvas_def display_box_def size_cropped)

lemma sent_breakBones:
  "sent (breakBones env s) =
     (if proceeds env s
      then [Get (imageSrc s),
            if js_includes (imageSrc s) (backend env)
            then Post (backend env @ ''/apply_fracture_queue'')
                   (formDataQueue env s (the (fetched env))) (authorization env)
            else Post (backend env @ ''/apply_fracture'')
                   (formData env s (the (fetched env))) (authorization env)]
      else [Get (imageSrc s)])"
  by (simp add: breakBones_def proceeds_def Let_def split: option.splits prod.splits)

lemma rejected_breakBones:
  "rejected (breakBones env s) =
     (if fetched env = None then Some ImageFetch
      else if \<not> proceeds env s then Some ToBlob
      else if response env = None then Some PostFetch else None)"
  by (simp add: breakBones_def proceeds_def Let_def split: option.splits prod.splits)


lemma floor_rat_numeral:
  "\<lfloor>numeral a / numeral b :: rat\<rfloor> = numeral a div numeral b"
  by (metis floor_divide_of_int_eq of_int_numeral)

lemma upt_4: "[0..<4] = [0, 1, 2, 3]"
  by (simp add: upt_rec)

lemma upt_2: "[0..<2] = [0, 1]"
  by (simp add: upt_rec)

lemma never_sampled [simp]: "\<not> fl (19 / 20) < 0"
  using fl_nonneg [of "19 / 20"] by simp

lemma scan_two_dots:
  "scan_overlay (\<lambda>k. 0) r two_dots =
     \<lparr>minX = 0, minY = 0, maxX = 1, maxY = 1, count = 2, seeds = []\<rparr>"
  by (simp add: scan_overlay_def visit_def painted_def two_dots_def upt_2)

lemma scan_corners:
  "scan_overlay (\<lambda>k. 0) r corners =
     \<lparr>minX = 0, minY = 0, maxX = 3, maxY = 3, count = 2, seeds = []\<rparr>"
  by (simp add: scan_overlay_def visit_def painted_def corners_def upt_4)

lemma scan_one_dot:
  "scan_overlay (\<lambda>k. 0) r one_dot =
     \<lparr>minX = 1, minY = 1, maxX = 1, maxY = 1, count = 1, seeds = []\<rparr>"
  by (simp add: scan_overlay_def visit_def painted_def one_dot_def upt_2)

lemma visit_unpainted: "\<not> painted img x y \<Longrightarrow> visit rnd r img y x a = a"
  by (simp add: visit_def)

lemma fold_visit_unpainted:
  "\<forall>p \<in> set ps. \<not> painted img (fst p) (snd p) \<Longrightarrow>
     fold (\<lambda>(x, y). visit rnd r img y x) ps a = a"
  by (induction ps arbitrary: a) (auto simp: visit_unpainted)

lemma scan_transparent:
  "transparent img \<Longrightarrow>
     scan_overlay rnd r img =
       \<lparr>minX = width img, minY = height img, maxX = 0, maxY = 0, count = 0, seeds = []\<rparr>"
  unfolding scan_overlay_def fold_rows_pixels
  by (rule fold_visit_unpainted) (auto simp: set_pixels transparent_def)

lemma transparent_blank: "transparent (blank w h)"
  by (auto simp: transparent_def painted_def blank_def Let_def)

lemma canvas_dim_negative:
  assumes "1 \<le> v" "v \<le> 2147483648"
  shows "canvas_dim (- v) d = d"
proof -
  define n where "n = \<lfloor>v\<rfloor>"
  have "1 \<le> n"
    unfolding n_def using assms(1) le_floor_iff [of 1 v] by simp
  moreover have "n \<le> 2147483648"
    unfolding n_def using assms(2) floor_mono [of v 2147483648] by simp
  ultimately have m: "(- n) mod 4294967296 = 4294967296 - n" "n \<le> 2147483648"
    by (simp_all add: zmod_zminus1_eq_if)
  have "canvas_dim (- v) d = (if (- n) mod 4294967296 \<le> 2147483647 then nat ((- n) mod 4294967296) else d)"
    using assms(1) by (simp add: canvas_dim_def Let_def n_def)
  then show ?thesis
    using m by simp
qed

text \<open>The display-space image of the initial lower bound, the canvas dimension itself,
  lies between the bounds of the display side, whatever the rounding.\<close>

lemma round_trip_bounds:
  assumes "0 < n" "1 \<le> r" "r < 2147483648"
  shows "1 \<le> fdiv (fmul (number n) r) (number n)"
    and "fdiv (fmul (number n) r) (number n) \<le> 2147483648"
proof -
  let ?W = "number n"
  have W: "1 \<le> ?W" "fl ?W = ?W" using number_pos [OF assms(1)] by (simp_all add: number_def)
  have "fl ?W \<le> fl (?W * r)" using W(1) assms(2) by (intro fl_mono) simp
  then have "1 \<le> fmul ?W r / ?W" using W by (simp add: fmul_def pos_le_divide_eq)
  then have "fl 1 \<le> fl (fmul ?W r / ?W)" by (rule fl_mono)
  then show "1 \<le> fdiv (fmul ?W r) ?W" by (simp add: fdiv_def)
  have "fl (?W * r) \<le> fl (?W * 2 powi 31)" using W(1) assms(3) by (intro fl_mono) simp
  also have "\<dots> = ?W * 2 powi 31" using W(2) by (simp only: fl_scale)
  finally have "fmul ?W r / ?W \<le> 2147483648" using W(1) by (simp add: fmul_def pos_divide_le_eq)
  then have "fl (fmul ?W r / ?W) \<le> fl 2147483648" by (rule fl_mono)
  then show "fdiv (fmul ?W r) ?W \<le> 2147483648" by (simp add: fdiv_def fl_numeral)
qed

lemma size_transparent:
  assumes "transparent (canvas s)" "0 < width (canvas s)" "0 < height (canvas s)"
    and "1 \<le> rwidth (rect s)" "rwidth (rect s) < 2147483648"
    and "1 \<le> rheight (rect s)" "rheight (rect s) < 2147483648"
  shows "width (croppedCanvas env s) = 300" "height (croppedCanvas env s) = 150"
proof -
  have z: "fsub 0 (fdiv a b) = - fdiv a b" for a b
    by (simp add: fsub_def fdiv_def fl_minus)
  show "width (croppedCanvas env s) = 300"
    using round_trip_bounds [OF assms(2,4,5)]
    by (simp add: size_croppedCanvas scan_transparent assms(1) fmul_def fdiv_def [of 0] z
        canvas_dim_negative)
  show "height (croppedCanvas env s) = 150"
    using round_trip_bounds [OF assms(3,6,7)]
    by (simp add: size_croppedCanvas scan_transparent assms(1) fmul_def fdiv_def [of 0] z
        canvas_dim_negative)
qed

lemma proceeds_transparent:
  assumes "transparent (canvas s)" "0 < width (canvas s)" "0 < height (canvas s)"
    and "1 \<le> rwidth (rect s)" "rwidth (rect s) < 2147483648"
    and "1 \<le> rheight (rect s)" "rheight (rect s) < 2147483648"
  shows "proceeds env s = (fetched env \<noteq> None \<and> encodes env)"
  by (simp add: proceeds_def size_transparent [OF assms])

text \<open>
  C1 as stated fails: on an overlay without a painted pixel the scan counts nothing, and
  the submission still posts to the direct endpoint.
\<close>

theorem empty_overlay_posted:
  "count (scan_overlay (rand (service True)) (rect vacant) (canvas vacant)) = 0
   \<and> map target (sent (breakBones (service True) vacant))
       = [''/capture.png'', ''http://api/apply_fracture'']"
proof -
  have c: "canvas vacant = blank 2 2" "rect vacant = at_origin 2 2"
    "imageSrc vacant = ''/capture.png''"
    by (simp_all add: vacant_def studio_def)
  have e: "fetched (service True) \<noteq> None" "encodes (service True)"
    "backend (service True) = ''http://api''"
    by (simp_all add: service_def)
  have p: "proceeds (service True) vacant"
    using e by (subst proceeds_transparent) (simp_all add: c transparent_blank, simp_all add: blank_def at_origin_def)
  show ?thesis
    by (simp add: sent_breakBones p c e scan_transparent transparent_blank)
qed

text \<open>
  C1, amended. For an overlay without a painted pixel the scan ends with \<open>count = 0\<close> and
  the initial bounds (width, height, 0, 0). The submission does not test the count: the
  differences of the bounds are negative, the crop canvas gets the default size, and (for
  a canvas that is not empty and a display rectangle with sides from 1 up to \<open>2^31\<close>) the
  POST to the endpoint of the mode is sent exactly when the image was fetched and the
  encoder gives a blob.
\<close>

theorem empty_overlay_not_guarded:
  "transparent (canvas s) \<and> 0 < width (canvas s) \<and> 0 < height (canvas s)
   \<and> 1 \<le> rwidth (rect s) \<and> rwidth (rect s) < 2147483648
   \<and> 1 \<le> rheight (rect s) \<and> rheight (rect s) < 2147483648 \<longrightarrow>
     count (scan_overlay (rand env) (rect s) (canvas s)) = 0
   \<and> (minX (scan_overlay (rand env) (rect s) (canvas s)),
      minY (scan_overlay (rand env) (rect s) (canvas s)),
      maxX (scan_overlay (rand env) (rect s) (canvas s)),
      maxY (scan_overlay (rand env) (rect s) (canvas s)))
       = (width (canvas s), height (canvas s), 0, 0)
   \<and> (width (croppedCanvas env s), height (croppedCanvas env s)) = (300, 150)
   \<and> map target (sent (breakBones env s))
       = (if fetched env \<noteq> None \<and> encodes env
          then [imageSrc s,
                backend env @ (if js_includes (imageSrc s) (backend env)
                               then ''/apply_fracture_queue'' else ''/apply_fracture'')]
          else [imageSrc s])"
proof (intro impI)
  assume h: "transparent (canvas s) \<and> 0 < width (canvas s) \<and> 0 < height (canvas s)
   \<and> 1 \<le> rwidth (rect s) \<and> rwidth (rect s) < 2147483648
   \<and> 1 \<le> rheight (rect s) \<and> rheight (rect s) < 2147483648"
  have p: "proceeds env s = (fetched env \<noteq> None \<and> encodes env)"
    using h by (intro proceeds_transparent) simp_all
  have w: "width (croppedCanvas env s) = 300"
    using h by (intro size_transparent) simp_all
  have v: "height (croppedCanvas env s) = 150"
    using h by (intro size_transparent) simp_all
  show "count (scan_overlay (rand env) (rect s) (canvas s)) = 0
   \<and> (minX (scan_overlay (rand env) (rect s) (canvas s)),
      minY (scan_overlay (rand env) (rect s) (canvas s)),
      maxX (scan_overlay (rand env) (rect s) (canvas s)),
      maxY (scan_overlay (rand env) (rect s) (canvas s)))
       = (width (canvas s), height (canvas s), 0, 0)
   \<and> (width (croppedCanvas env s), height (croppedCanvas env s)) = (300, 150)
   \<and> map target (sent (breakBones env s))
       = (if fetched env \<noteq> None \<and> encodes env
          then [imageSrc s,
                backend env @ (if js_includes (imageSrc s) (backend env)
                               then ''/apply_fracture_queue'' else ''/apply_fracture'')]
          else [imageSrc s])"
    using h by (simp add: scan_transparent sent_breakBones p w v)
qed

theorem empty_overlay_not_guarded_witness:
  "transparent (canvas vacant) \<and> 0 < width (canvas vacant) \<and> 0 < height (canvas vacant)
   \<and> 1 \<le> rwidth (rect vacant) \<and> rwidth (rect vacant) < 2147483648
   \<and> 1 \<le> rheight (rect vacant) \<and> rheight (rect vacant) < 2147483648
   \<and> count (scan_overlay (rand offline) (rect vacant) (canvas vacant)) = 0
   \<and> (width (croppedCanvas offline vacant), height (croppedCanvas offline vacant)) = (300, 150)
   \<and> map target (sent (breakBones offline vacant)) = [''/capture.png'', ''http://api/apply_fracture'']"
proof -
  have c: "canvas vacant = blank 2 2" "rect vacant = at_origin 2 2"
    "imageSrc vacant = ''/capture.png''"
    by (simp_all add: vacant_def studio_def)
  have e: "fetched offline \<noteq> None" "encodes offline" "backend offline = ''http://api''"
    by (simp_all add: offline_def service_def)
  have h: "transparent (canvas vacant) \<and> 0 < width (canvas vacant) \<and> 0 < height (canvas vacant)
   \<and> 1 \<le> rwidth (rect vacant) \<and> rwidth (rect vacant) < 2147483648
   \<and> 1 \<le> rheight (rect vacant) \<and> rheight (rect vacant) < 2147483648"
    by (simp add: c transparent_blank) (simp add: blank_def at_origin_def)
  show ?thesis
    using h e empty_overlay_not_guarded [of vacant offline] by (simp add: c)
qed

text \<open>
  C10. A submission that reaches the POST sends it to the queued endpoint if and only if
  \<^verbatim>\<open>PUBLIC_BACKEND_URL\<close> occurs somewhere in \<^verbatim>\<open>imageSrc\<close> as a substring, with the
  form of the queued mode, and to the direct endpoint with the form of the direct mode
  otherwise.
\<close>

theorem mode_by_substring:
  "proceeds env s \<longrightarrow>
     sent (breakBones env s)
       = [Get (imageSrc s),
          if (\<exists>pre post. imageSrc s = pre @ backend env @ post)
          then Post (backend env @ ''/apply_fracture_queue'')
                 (formDataQueue env s (the (fetched env))) (authorization env)
          else Post (backend env @ ''/apply_fracture'')
                 (formData env s (the (fetched env))) (authorization env)]"
  by (simp add: sent_breakBones js_includes_iff)

lemma proceeds_two_dots:
  "canvas s = two_dots \<Longrightarrow> rect s = at_origin 2 2 \<Longrightarrow> rand env = (\<lambda>k. 0) \<Longrightarrow>
     proceeds env s = (fetched env \<noteq> None \<and> encodes env)"
  by (simp add: proceeds_def size_croppedCanvas scan_two_dots)
    (simp add: two_dots_def at_origin_def fl_small canvas_dim_def)

theorem mode_by_substring_witness:
  "proceeds (service True) mirror
   \<and> map target (sent (breakBones (service True) mirror))
       = [''/view?from=http://api/7/1'', ''http://api/apply_fracture_queue'']
   \<and> proceeds (service True) atelier
   \<and> map target (sent (breakBones (service True) atelier))
       = [''/capture.png'', ''http://api/apply_fracture'']"
proof -
  have e: "fetched (service True) \<noteq> None" "encodes (service True)"
    "rand (service True) = (\<lambda>k. 0)" "backend (service True) = ''http://api''"
    by (simp_all add: service_def)
  have a: "canvas atelier = two_dots" "rect atelier = at_origin 2 2"
    "imageSrc atelier = ''/capture.png''"
    by (simp_all add: atelier_def studio_def)
  have m: "canvas mirror = two_dots" "rect mirror = at_origin 2 2"
    "imageSrc mirror = ''/view?from=http://api/7/1''"
    by (simp_all add: mirror_def atelier_def studio_def)
  have pa: "proceeds (service True) atelier"
    using proceeds_two_dots [OF a(1) a(2) e(3)] e by simp
  have pm: "proceeds (service True) mirror"
    using proceeds_two_dots [OF m(1) m(2) e(3)] e by simp
  have "''/view?from=http://api/7/1'' = ''/view?from='' @ ''http://api'' @ ''/7/1''"
    by simp
  then have inm: "\<exists>pre post. imageSrc mirror = pre @ backend (service True) @ post"
    unfolding m e by blast
  have "\<not> js_includes ''/capture.png'' ''http://api''"
    by simp
  then have ina: "\<not> (\<exists>pre post. imageSrc atelier = pre @ backend (service True) @ post)"
    unfolding a e js_includes_iff .
  show ?thesis
    using pa pm mode_by_substring [of "service True" mirror]
      mode_by_substring [of "service True" atelier]
    by (simp add: inm ina) (simp add: m a e)
qed

section \<open>The form of the submission\<close>

lemma keys_formData:
  "map fst (formData env s img) = [''image_file'', ''scale'', ''noise'', ''overlay_file'', ''x'', ''y'']"
  by (simp add: formData_def display_box_def)

lemma keys_formDataQueue:
  "map fst (formDataQueue env s img)
     = [''scale'', ''noise'', ''overlay_file'', ''x'', ''y'', ''choice'', ''job_id'']"
  by (simp add: formDataQueue_def formData_def display_box_def fd_delete_def Let_def)

lemma posted_breakBones:
  "proceeds env s \<Longrightarrow>
     posted (breakBones env s) =
       (if js_includes (imageSrc s) (backend env) then formDataQueue env s (the (fetched env))
        else formData env s (the (fetched env)))"
  by (simp add: posted_def sent_breakBones)

lemma fields_formData:
  "map_of (formData env s img) ''image_file'' = Some (File img ''image.png'')"
  "map_of (formData env s img) ''scale'' = Some (Str ''1.0'')"
  "map_of (formData env s img) ''noise'' = Some (Str ''10'')"
  "map_of (formData env s img) ''overlay_file''
     = Some (File (PngBlob (croppedCanvas env s)) ''overlay.png'')"
  "map_of (formData env s img) ''x''
     = Some (Str (num (js_round
         (fmul (fst (display_box (rect s) (canvas s) (scan_overlay (rand env) (rect s) (canvas s))))
            (fdiv (number (fst (natural s))) (rwidth (rect s)))))))"
  "map_of (formData env s img) ''y''
     = Some (Str (num (js_round
         (fmul (fst (snd (display_box (rect s) (canvas s) (scan_overlay (rand env) (rect s) (canvas s)))))
            (fdiv (number (snd (natural s))) (rheight (rect s)))))))"
  "map_of (formData env s img) ''choice'' = None"
  "map_of (formData env s img) ''job_id'' = None"
  by (simp_all add: formData_def display_box_def)

lemma fields_formDataQueue:
  "map_of (formDataQueue env s img) ''image_file'' = None"
  "map_of (formDataQueue env s img) ''scale'' = Some (Str ''1.0'')"
  "map_of (formDataQueue env s img) ''noise'' = Some (Str ''10'')"
  "map_of (formDataQueue env s img) ''overlay_file''
     = Some (File (PngBlob (croppedCanvas env s)) ''overlay.png'')"
  "map_of (formDataQueue env s img) ''x''
     = Some (Str (num (js_round
         (fmul (fst (display_box (rect s) (canvas s) (scan_overlay (rand env) (rect s) (canvas s))))
            (fdiv (number (fst (natural s))) (rwidth (rect s)))))))"
  "map_of (formDataQueue env s img) ''y''
     = Some (Str (num (js_round
         (fmul (fst (snd (display_box (rect s) (canvas s) (scan_overlay (rand env) (rect s) (canvas s)))))
            (fdiv (number (snd (natural s))) (rheight (rect s)))))))"
  "map_of (formDataQueue env s img) ''choice'' = Some (Str (last (split_on CHR ''/'' (imageSrc s))))"
  "map_of (formDataQueue env s img) ''job_id''
     = Some (Str (if butlast (split_on CHR ''/'' (imageSrc s)) = [] then ''undefined''
                  else last (butlast (split_on CHR ''/'' (imageSrc s)))))"
  by (simp_all add: formDataQueue_def formData_def display_box_def fd_delete_def Let_def)

lemma upt_3: "[0..<3] = [0, 1, 2]"
  by (simp add: upt_rec)

lemma scan_diagonal:
  "scan_overlay (\<lambda>k. 0) r diagonal =
     \<lparr>minX = 1, minY = 1, maxX = 2, maxY = 2, count = 2, seeds = []\<rparr>"
  by (simp add: scan_overlay_def visit_def painted_def diagonal_def upt_3)

lemma dec_digit: "n < 10 \<Longrightarrow> dec n = [''0123456789'' ! n]"
  by (subst dec.simps) simp


lemma ward_fields:
  "canvas ward = diagonal" "rect ward = at_origin 3 3" "natural ward = (6, 6)"
  "imageSrc ward = ''http://api/results/7/1''" "src ward = ''http://api/results/7/1''"
  "undoStack ward = []" "redoStack ward = []" "overlayDataUrl ward = None"
  "dpr ward = 1" "path ward = []"
  by (simp_all add: ward_def studio_def)

lemma atelier_fields:
  "canvas atelier = two_dots" "rect atelier = at_origin 2 2" "natural atelier = (4, 4)"
  "imageSrc atelier = ''/capture.png''" "src atelier = ''/capture.png''"
  "undoStack atelier = []" "redoStack atelier = []" "overlayDataUrl atelier = None"
  "dpr atelier = 1" "path atelier = []"
  by (simp_all add: atelier_def studio_def)

lemma service_fields:
  "backend (service ok) = ''http://api''" "fetched (service ok) = Some (Bytes ''photo'')"
  "rand (service ok) = (\<lambda>k. 0)" "encodes (service ok)"
  "response (service ok) = Some (ok, Bytes ''xray'')" "now (service ok) = 1730"
  by (simp_all add: service_def)


lemma proceeds_ward: "rand env = (\<lambda>k. 0) \<Longrightarrow> proceeds env ward = (fetched env \<noteq> None \<and> encodes env)"
  by (simp add: proceeds_def size_croppedCanvas ward_fields scan_diagonal canvas_dim_def)
    (simp add: diagonal_def at_origin_def fl_small)

lemma ward_queued: "js_includes (imageSrc ward) ''http://api''"
  by (simp add: ward_fields)

lemma upt_8: "[0..<8] = [0, 1, 2, 3, 4, 5, 6, 7]"
  by (simp add: upt_rec)

lemma scan_strip:
  "scan_overlay (\<lambda>k. 0) r strip =
     \<lparr>minX = 5, minY = 0, maxX = 7, maxY = 2, count = 2, seeds = []\<rparr>"
  by (simp add: scan_overlay_def visit_def painted_def strip_def upt_3 upt_8 nth_append)

lemma dec_57: "dec 57 = ''57''"
  by code_simp

lemma tablet_fields:
  "canvas tablet = strip" "rect tablet = at_origin 5 2" "natural tablet = (92, 3)"
  "imageSrc tablet = ''/capture.png''" "src tablet = ''/capture.png''"
  "undoStack tablet = []" "redoStack tablet = []" "overlayDataUrl tablet = None"
  "dpr tablet = 13 / 8" "path tablet = []"
  by (simp_all add: tablet_def studio_def)

text \<open>The left edge of the box of \<open>strip\<close> in display space is 25/8, and the factor to
  source space is the binary64 number next to 92/5; their product is rounded below
  57 + 1/2, where the exact product 25/8 * 92/5 is 57 + 1/2.\<close>

lemma tablet_x:
  "fmul (fdiv (fmul (number 5) 5) (number 8)) (fdiv (number 92) 5)
     = 8092405580431359 / 140737488355328"
proof -
  have a: "fdiv (fmul (number 5) 5) (number 8) = 25 / 8"
    by (simp add: fl_small fl_eighth)
  have b: "fdiv (number 92) 5 = 2589569785738035 / 140737488355328"
    by (simp add: fdiv_def number_numeral fl_92_5)
  have "fmul (25 / 8) (2589569785738035 / 140737488355328)
      = 8092405580431359 / 140737488355328"
    unfolding fmul_def by (rule fl_tablet_x)
  then show ?thesis
    by (simp only: a b)
qed

lemma tablet_x_exact: "js_round (25 / 8 * (92 / 5)) = 58"
  by (simp add: js_round_def floor_rat_numeral)

lemma proceeds_tablet:
  "rand env = (\<lambda>k. 0) \<Longrightarrow> proceeds env tablet = (fetched env \<noteq> None \<and> encodes env)"
  by (simp add: proceeds_def size_croppedCanvas tablet_fields scan_strip)
    (simp add: strip_def at_origin_def fl_small fl_quarter fl_eighth fl_4_3 fl_4_3_fixed
      canvas_dim_def floor_rat_numeral)

text \<open>With a canvas and a display rectangle 320 wide over a capture 3024 wide, the
  column 50 is sent as 472, where the exact product 50 * 3024 / 320 rounds to 473.\<close>

lemma column_50:
  "js_round (fmul (fdiv (fmul (number 50) 320) (number 320)) (fdiv (number 3024) 320)) = 472"
  "js_round (50 * 320 / 320 * (3024 / 320)) = 473"
proof -
  have a: "fdiv (fmul (number 50) 320) (number 320) = 50"
    by (simp add: fl_small)
  have b: "fdiv (number 3024) 320 = 2659938529915699 / 281474976710656"
    by (simp add: fdiv_def number_numeral fl_numeral fl_189_20)
  have "fmul 50 (2659938529915699 / 281474976710656) = 8312307905986559 / 17592186044416"
    unfolding fmul_def by (rule fl_column_50)
  then show "js_round (fmul (fdiv (fmul (number 50) 320) (number 320)) (fdiv (number 3024) 320))
      = 472"
    by (simp only: a b) (simp add: js_round_def floor_rat_numeral)
  show "js_round (50 * 320 / 320 * (3024 / 320)) = 473"
    by (simp add: js_round_def floor_rat_numeral)
qed

text \<open>
  C6 as stated fails: the form of a queued submission holds the overlay file, a field of
  the direct mode, beside the job and the choice.
\<close>

theorem queued_form_has_overlay:
  "map fst (posted (breakBones (service True) ward))
     = [''scale'', ''noise'', ''overlay_file'', ''x'', ''y'', ''choice'', ''job_id'']"
proof -
  have "proceeds (service True) ward"
    by (simp add: proceeds_ward service_fields)
  then show ?thesis
    using ward_queued by (simp add: posted_breakBones service_fields keys_formDataQueue)
qed

text \<open>
  C6, amended. The form of every submission that proceeds contains scale = 1.0,
  noise = 10, the overlay file (the blob of the crop canvas), and x and y, the top left
  corner of the display-space box converted to source space and rounded: \<^verbatim>\<open>Math.round\<close>
  of the binary64 product of the corner and the binary64 quotient of the natural size and
  the display size. In the direct mode it contains the image file beside these and
  nothing else; in the queued mode the image file is removed and the form contains
  instead the choice (the last segment of the image location) and the job (the segment
  before it), and nothing else.
\<close>

theorem submission_form:
  "proceeds env s \<longrightarrow>
     map_of (posted (breakBones env s)) ''scale'' = Some (Str ''1.0'')
   \<and> map_of (posted (breakBones env s)) ''noise'' = Some (Str ''10'')
   \<and> map_of (posted (breakBones env s)) ''overlay_file''
       = Some (File (PngBlob (croppedCanvas env s)) ''overlay.png'')
   \<and> map_of (posted (breakBones env s)) ''x''
       = Some (Str (num (js_round
           (fmul (fst (display_box (rect s) (canvas s) (scan_overlay (rand env) (rect s) (canvas s))))
              (fdiv (number (fst (natural s))) (rwidth (rect s)))))))
   \<and> map_of (posted (breakBones env s)) ''y''
       = Some (Str (num (js_round
           (fmul (fst (snd (display_box (rect s) (canvas s) (scan_overlay (rand env) (rect s) (canvas s)))))
              (fdiv (number (snd (natural s))) (rheight (rect s)))))))
   \<and> (if js_includes (imageSrc s) (backend env)
      then map fst (posted (breakBones env s))
             = [''scale'', ''noise'', ''overlay_file'', ''x'', ''y'', ''choice'', ''job_id'']
         \<and> map_of (posted (breakBones env s)) ''choice''
             = Some (Str (last (split_on CHR ''/'' (imageSrc s))))
         \<and> map_of (posted (breakBones env s)) ''job_id''
             = Some (Str (if butlast (split_on CHR ''/'' (imageSrc s)) = [] then ''undefined''
                          else last (butlast (split_on CHR ''/'' (imageSrc s)))))
      else map fst (posted (breakBones env s))
             = [''image_file'', ''scale'', ''noise'', ''overlay_file'', ''x'', ''y'']
         \<and> map_of (posted (breakBones env s)) ''image_file''
             = Some (File (the (fetched env)) ''image.png''))"
proof (intro impI)
  assume p: "proceeds env s"
  show "map_of (posted (breakBones env s)) ''scale'' = Some (Str ''1.0'')
   \<and> map_of (posted (breakBones env s)) ''noise'' = Some (Str ''10'')
   \<and> map_of (posted (breakBones env s)) ''overlay_file''
       = Some (File (PngBlob (croppedCanvas env s)) ''overlay.png'')
   \<and> map_of (posted (breakBones env s)) ''x''
       = Some (Str (num (js_round
           (fmul (fst (display_box (rect s) (canvas s) (scan_overlay (rand env) (rect s) (canvas s))))
              (fdiv (number (fst (natural s))) (rwidth (rect s)))))))
   \<and> map_of (posted (breakBones env s)) ''y''
       = Some (Str (num (js_round
           (fmul (fst (snd (display_box (rect s) (canvas s) (scan_overlay (rand env) (rect s) (canvas s)))))
              (fdiv (number (snd (natural s))) (rheight (rect s)))))))
   \<and> (if js_includes (imageSrc s) (backend env)
      then map fst (posted (breakBones env s))
             = [''scale'', ''noise'', ''overlay_file'', ''x'', ''y'', ''choice'', ''job_id'']
         \<and> map_of (posted (breakBones env s)) ''choice''
             = Some (Str (last (split_on CHR ''/'' (imageSrc s))))
         \<and> map_of (posted (breakBones env s)) ''job_id''
             = Some (Str (if butlast (split_on CHR ''/'' (imageSrc s)) = [] then ''undefined''
                          else last (butlast (split_on CHR ''/'' (imageSrc s)))))
      else map fst (posted (breakBones env s))
             = [''image_file'', ''scale'', ''noise'', ''overlay_file'', ''x'', ''y'']
         \<and> map_of (posted (breakBones env s)) ''image_file''
             = Some (File (the (fetched env)) ''image.png''))"
  proof (cases "js_includes (imageSrc s) (backend env)")
    case True
    then have "posted (breakBones env s) = formDataQueue env s (the (fetched env))"
      using p by (simp add: posted_breakBones)
    then show ?thesis
      using True by (simp only: fields_formDataQueue keys_formDataQueue if_True simp_thms)
  next
    case False
    then have "posted (breakBones env s) = formData env s (the (fetched env))"
      using p by (simp add: posted_breakBones)
    then show ?thesis
      using False by (simp only: fields_formData keys_formData if_False simp_thms)
  qed
qed

theorem submission_form_witness:
  "proceeds (service True) ward
   \<and> map_of (posted (breakBones (service True) ward)) ''scale'' = Some (Str ''1.0'')
   \<and> map_of (posted (breakBones (service True) ward)) ''noise'' = Some (Str ''10'')
   \<and> map_of (posted (breakBones (service True) ward)) ''x'' = Some (Str ''2'')
   \<and> map_of (posted (breakBones (service True) ward)) ''y'' = Some (Str ''2'')
   \<and> map_of (posted (breakBones (service True) ward)) ''choice'' = Some (Str ''1'')
   \<and> map_of (posted (breakBones (service True) ward)) ''job_id'' = Some (Str ''7'')
   \<and> proceeds (service True) atelier
   \<and> map_of (posted (breakBones (service True) atelier)) ''image_file''
       = Some (File (Bytes ''photo'') ''image.png'')
   \<and> map_of (posted (breakBones (service True) atelier)) ''x'' = Some (Str ''0'')
   \<and> proceeds (service True) tablet
   \<and> map_of (posted (breakBones (service True) tablet)) ''x'' = Some (Str ''57'')
   \<and> map_of (posted (breakBones (service True) tablet)) ''y'' = Some (Str ''0'')"
proof -
  have pw: "proceeds (service True) ward"
    by (simp add: proceeds_ward service_fields)
  have pa: "proceeds (service True) atelier"
    by (simp add: proceeds_two_dots atelier_fields service_fields)
  have pt: "proceeds (service True) tablet"
    by (simp add: proceeds_tablet service_fields)
  have na: "\<not> js_includes (imageSrc atelier) (backend (service True))"
    by (simp add: atelier_fields service_fields)
  have nt: "\<not> js_includes (imageSrc tablet) (backend (service True))"
    by (simp add: tablet_fields service_fields)
  have qw: "js_includes (imageSrc ward) (backend (service True))"
    by (simp add: ward_fields service_fields)
  have xw: "num (js_round (fmul (fst (display_box (rect ward) (canvas ward)
              (scan_overlay (rand (service True)) (rect ward) (canvas ward))))
            (fdiv (number (fst (natural ward))) (rwidth (rect ward))))) = ''2''"
    "num (js_round (fmul (fst (snd (display_box (rect ward) (canvas ward)
              (scan_overlay (rand (service True)) (rect ward) (canvas ward)))))
            (fdiv (number (snd (natural ward))) (rheight (rect ward))))) = ''2''"
    by (simp_all add: ward_fields service_fields scan_diagonal display_box_def)
      (simp_all add: at_origin_def diagonal_def fl_small js_round_def num_def dec_digit
        floor_rat_numeral)
  have xa: "num (js_round (fmul (fst (display_box (rect atelier) (canvas atelier)
              (scan_overlay (rand (service True)) (rect atelier) (canvas atelier))))
            (fdiv (number (fst (natural atelier))) (rwidth (rect atelier))))) = ''0''"
    by (simp add: atelier_fields service_fields scan_two_dots display_box_def)
      (simp add: fl_small js_round_def num_def dec_digit floor_rat_numeral)
  have xt: "num (js_round (fmul (fst (display_box (rect tablet) (canvas tablet)
              (scan_overlay (rand (service True)) (rect tablet) (canvas tablet))))
            (fdiv (number (fst (natural tablet))) (rwidth (rect tablet))))) = ''57''"
    by (simp add: tablet_fields service_fields scan_strip display_box_def)
      (simp add: at_origin_def strip_def tablet_x js_round_def num_def dec_57
        floor_rat_numeral)
  have yt: "num (js_round (fmul (fst (snd (display_box (rect tablet) (canvas tablet)
              (scan_overlay (rand (service True)) (rect tablet) (canvas tablet)))))
            (fdiv (number (snd (natural tablet))) (rheight (rect tablet))))) = ''0''"
    by (simp add: tablet_fields service_fields scan_strip display_box_def)
      (simp add: at_origin_def strip_def fl_small js_round_def num_def dec_digit
        floor_rat_numeral)
  have sw: "last (split_on CHR ''/'' (imageSrc ward)) = ''1''"
    "butlast (split_on CHR ''/'' (imageSrc ward)) \<noteq> []"
    "last (butlast (split_on CHR ''/'' (imageSrc ward))) = ''7''"
    by (simp_all add: ward_fields)
  have fa: "the (fetched (service True)) = Bytes ''photo''"
    by (simp add: service_fields)
  note w = mp [OF submission_form [of "service True" ward] pw]
  note a = mp [OF submission_form [of "service True" atelier] pa]
  note t = mp [OF submission_form [of "service True" tablet] pt]
  show ?thesis
    using w a t pw pa pt by (simp only: na nt qw xw xa xt yt sw fa if_True if_False simp_thms)
qed

section \<open>The crop canvas\<close>

lemma retina_fields:
  "canvas retina = corners" "rect retina = at_origin 2 2" "dpr retina = 2"
  "imageSrc retina = ''/capture.png''"
  by (simp_all add: retina_def studio_def)

lemma studio_fields:
  "canvas studio = one_dot" "rect studio = at_origin 2 2" "dpr studio = 1"
  "imageSrc studio = ''/capture.png''"
  by (simp_all add: studio_def)

text \<open>
  C2, evaluated where it fails. On a display with a device pixel ratio of 2, with the
  pixels at (0, 0) and (3, 3) painted, the device-space bounds are (0, 0, 3, 3), but the
  overlay file of the form is the blob of a crop canvas of one pixel by one pixel: the
  canvas takes the display-space differences of the bounds as its dimensions. With a
  ratio of 1 and a single painted pixel the crop canvas has no pixel, \<^verbatim>\<open>toBlob\<close> gives
  no blob, and the submission ends there.
\<close>

theorem crop_in_display_units:
  "(minX (scan_overlay (rand (service True)) (rect retina) (canvas retina)),
    minY (scan_overlay (rand (service True)) (rect retina) (canvas retina)),
    maxX (scan_overlay (rand (service True)) (rect retina) (canvas retina)),
    maxY (scan_overlay (rand (service True)) (rect retina) (canvas retina))) = (0, 0, 3, 3)
   \<and> map_of (posted (breakBones (service True) retina)) ''overlay_file''
       = Some (File (PngBlob (croppedCanvas (service True) retina)) ''overlay.png'')
   \<and> (width (croppedCanvas (service True) retina), height (croppedCanvas (service True) retina))
       = (1, 1)
   \<and> (width (croppedCanvas (service True) studio), height (croppedCanvas (service True) studio))
       = (0, 0)
   \<and> rejected (breakBones (service True) studio) = Some ToBlob"
proof -
  have b: "scan_overlay (rand (service True)) (rect retina) (canvas retina)
      = \<lparr>minX = 0, minY = 0, maxX = 3, maxY = 3, count = 2, seeds = []\<rparr>"
    by (simp add: service_fields retina_fields scan_corners)
  have r: "width (croppedCanvas (service True) retina) = 1"
    "height (croppedCanvas (service True) retina) = 1"
    by (simp_all add: size_croppedCanvas b)
      (simp_all add: retina_fields at_origin_def corners_def fl_small canvas_dim_def
        floor_rat_numeral)
  have p: "proceeds (service True) retina"
    by (simp add: proceeds_def r service_fields)
  have f: "map_of (posted (breakBones (service True) retina)) ''overlay_file''
       = Some (File (PngBlob (croppedCanvas (service True) retina)) ''overlay.png'')"
    using p by (simp add: posted_breakBones fields_formData fields_formDataQueue)
  have o: "width (croppedCanvas (service True) studio) = 0"
    "height (croppedCanvas (service True) studio) = 0"
    by (simp_all add: size_croppedCanvas service_fields studio_fields scan_one_dot)
      (simp_all add: one_dot_def at_origin_def fl_small canvas_dim_def)
  have t: "rejected (breakBones (service True) studio) = Some ToBlob"
    by (simp add: rejected_breakBones proceeds_def o service_fields)
  show ?thesis
    using b r f o t by simp
qed

text \<open>The size of the crop canvas is the truncation of a binary64 difference: on a canvas
  nine pixels wide shown at three CSS pixels, a box from column 5 to column 8 has the
  display-space width 8/3 - 5/3 rounded to just below 1, and the canvas gets no column.\<close>

lemma crop_width_truncated:
  "canvas_dim (fsub (fdiv (fmul (number 8) 3) (number 9)) (fdiv (fmul (number 5) 3) (number 9))) 300
     = 0"
proof -
  have a: "fdiv (fmul (number 8) 3) (number 9) = 6004799503160661 / 2251799813685248"
    by (simp add: fl_small fl_8_3)
  have b: "fdiv (fmul (number 5) 3) (number 9) = 7505999378950827 / 4503599627370496"
    by (simp add: fl_small fl_5_3)
  have "fsub (6004799503160661 / 2251799813685248) (7505999378950827 / 4503599627370496)
      = 4503599627370495 / 4503599627370496"
    by (simp add: fsub_def fl_below_1)
  then show ?thesis
    by (simp only: a b) (simp add: canvas_dim_def floor_rat_numeral)
qed

section \<open>The state after the submission\<close>









end
